theory Spec2Isabelle
  imports Complex_Main
begin

text \<open>
  A model of \<open>Tone/source/Source.ts\<close>, the base class of the sources of Tone.js, and
  of the parts of \<open>Tone/core/context/ToneWithContext.ts\<close> it uses: the scheduling of
  \<open>start\<close> and \<open>stop\<close> on a state timeline, the synchronisation with the transport,
  and disposal. The methods are functions on a \<open>World\<close>, the source together with
  its context; the abstract methods \<open>_start\<close>, \<open>_stop\<close> and \<open>restart\<close> are
  recorded as a trace of calls.
\<close>

section \<open>Units and playback states\<close>

text \<open>
  \<open>Seconds\<close> is a JavaScript number; it is modelled by a real number, so rounding and
  \<open>NaN\<close> are outside the model. A \<open>Time\<close> argument is either a plain number or a
  notation string such as \<open>"+0.5"\<close> or \<open>"4n"\<close>; the object forms of \<open>Time\<close> are
  not modelled.
\<close>

type_synonym Seconds = real

datatype Time = TNumber real | TString string

datatype BasicPlaybackState = Started | Stopped

datatype PlaybackState = TStarted | TStopped | TPaused

text \<open>JavaScript truthiness of an optional \<open>Time\<close> and of an optional number.\<close>

fun truthy :: "Time option \<Rightarrow> bool" where
  "truthy None = False"
| "truthy (Some (TNumber x)) = (x \<noteq> 0)"
| "truthy (Some (TString s)) = (s \<noteq> [])"

fun truthyNumber :: "Seconds option \<Rightarrow> bool" where
  "truthyNumber None = False"
| "truthyNumber (Some x) = (x \<noteq> 0)"

text \<open>\<open>defaultArg(given, fallback)\<close>: the fallback replaces an undefined argument.\<close>

fun defaultArg :: "Time option \<Rightarrow> Time \<Rightarrow> Time" where
  "defaultArg None fallback = fallback"
| "defaultArg (Some given) fallback = given"

section \<open>The state timeline\<close>

text \<open>
  The events of \<open>Source._state\<close>: a time, a state, and the optional \<open>offset\<close>,
  \<open>duration\<close> and \<open>implicitEnd\<close> declared in \<open>Source.ts\<close>.
\<close>

record StateTimelineEvent =
  time :: Seconds
  state :: BasicPlaybackState
  offset :: "Seconds option"
  duration :: "Seconds option"
  implicitEnd :: "bool option"

record StateTimeline =
  events :: "StateTimelineEvent list"
  memory :: nat

text \<open>
  Modelled from the spec: the class \<open>StateTimeline\<close> (core/util/StateTimeline) is not
  among the sources. The definitions follow section 4.1 and the invariants of section 3:
  \<open>get\<close> returns the latest event at or before the time, \<open>getValueAtTime\<close> its state
  or the default \<open>stopped\<close>, \<open>cancel\<close> removes every event at or after the time,
  \<open>setStateAtTime\<close> inserts in time order, replaces an event at the same time and evicts
  the oldest events beyond \<open>memory\<close>, and \<open>dispose\<close> releases all events.
\<close>

definition get :: "StateTimeline \<Rightarrow> Seconds \<Rightarrow> StateTimelineEvent option" where
  "get tml t =
     (case filter (\<lambda>e. time e \<le> t) (events tml) of
        [] \<Rightarrow> None
      | e # es \<Rightarrow> Some (last (e # es)))"

definition getValueAtTime :: "StateTimeline \<Rightarrow> Seconds \<Rightarrow> BasicPlaybackState" where
  "getValueAtTime tml t = (case get tml t of None \<Rightarrow> Stopped | Some e \<Rightarrow> state e)"

definition cancel :: "Seconds \<Rightarrow> StateTimeline \<Rightarrow> StateTimeline" where
  "cancel t tml = tml\<lparr>events := filter (\<lambda>e. time e < t) (events tml)\<rparr>"

definition newEvent :: "BasicPlaybackState \<Rightarrow> Seconds \<Rightarrow> StateTimelineEvent" where
  "newEvent st t = \<lparr>time = t, state = st, offset = None, duration = None, implicitEnd = None\<rparr>"

definition setStateAtTime :: "BasicPlaybackState \<Rightarrow> Seconds \<Rightarrow> StateTimeline \<Rightarrow> StateTimeline" where
  "setStateAtTime st t tml =
     (let es = filter (\<lambda>e. time e < t) (events tml) @ [newEvent st t]
                 @ filter (\<lambda>e. t < time e) (events tml)
      in tml\<lparr>events := drop (length es - memory tml) es\<rparr>)"

definition disposeTimeline :: "StateTimeline \<Rightarrow> StateTimeline" where
  "disposeTimeline tml = tml\<lparr>events := []\<rparr>"

text \<open>
  \<open>start\<close> assigns \<open>offset\<close> and \<open>duration\<close> on the event object that \<open>get\<close>
  returned; the object is the one stored in the timeline, found again by its time.
\<close>

definition assignExtras ::
  "StateTimelineEvent \<Rightarrow> Seconds option \<Rightarrow> Seconds option \<Rightarrow> StateTimeline \<Rightarrow> StateTimeline" where
  "assignExtras ev off dur tml =
     tml\<lparr>events := map (\<lambda>e. if time e = time ev then e\<lparr>offset := off, duration := dur\<rparr> else e)
                       (events tml)\<rparr>"

section \<open>The transport and the context\<close>

datatype TransportEvent = EvStart | EvStop | EvPause | EvLoopStart | EvLoopEnd

text \<open>
  The functions a source holds in \<open>_syncedStart\<close> and \<open>_syncedStop\<close>: the shared
  \<open>noOp\<close>, or one of the two closures that \<open>sync\<close> creates. A listener on the
  transport is such a function together with the source that created it.
\<close>

datatype Callback = NoOp | SyncedStart | SyncedStop

text \<open>
  The two closures \<open>start\<close> and \<open>stop\<close> hand to \<open>transport.schedule\<close>:
  \<open>t => this._start(t, offset, duration)\<close> and \<open>this._stop.bind(this)\<close>.
\<close>

datatype Deferred = DeferStart "Time option" "Time option" | DeferStop

record Transport =
  tstate :: PlaybackState
  seconds :: Seconds
  getSecondsAtTime :: "Seconds \<Rightarrow> Seconds"
  listeners :: "(TransportEvent \<times> nat \<times> Callback) list"
  timeline :: "(nat \<times> Seconds \<times> nat \<times> Deferred) list"
  nextId :: nat

text \<open>
  Modelled from the spec: the Transport is not among the sources. Section 6 gives its
  interface: \<open>schedule(callback, time)\<close> returns an identifier, \<open>clear(identifier)\<close>
  removes the callback registered under it, \<open>on\<close> and \<open>off\<close> add and remove a
  listener of a lifecycle event. Identifiers are issued from a counter.
\<close>

definition schedule :: "nat \<times> Deferred \<Rightarrow> Seconds \<Rightarrow> Transport \<Rightarrow> nat \<times> Transport" where
  "schedule cb t tr =
     (nextId tr,
      tr\<lparr>timeline := timeline tr @ [(nextId tr, t, cb)], nextId := Suc (nextId tr)\<rparr>)"

definition clear :: "nat \<Rightarrow> Transport \<Rightarrow> Transport" where
  "clear i tr = tr\<lparr>timeline := filter (\<lambda>e. fst e \<noteq> i) (timeline tr)\<rparr>"

definition transportOn :: "TransportEvent \<Rightarrow> nat \<times> Callback \<Rightarrow> Transport \<Rightarrow> Transport" where
  "transportOn ev cb tr = tr\<lparr>listeners := listeners tr @ [(ev, cb)]\<rparr>"

definition transportOff :: "TransportEvent \<Rightarrow> nat \<times> Callback \<Rightarrow> Transport \<Rightarrow> Transport" where
  "transportOff ev cb tr = tr\<lparr>listeners := filter (\<lambda>l. l \<noteq> (ev, cb)) (listeners tr)\<rparr>"

text \<open>
  The context of \<open>ToneWithContext\<close>: the rendering clock and the transport. The
  conversion class \<open>TimeClass\<close> is not among the sources; what it yields for a
  notation string and for an omitted time are parameters of the context.
\<close>

record Context =
  currentTime :: Seconds
  lookAhead :: Seconds
  sampleRate :: real
  transport :: Transport
  secondsOfString :: "string \<Rightarrow> Seconds"
  secondsOfUndefined :: Seconds

definition now :: "Context \<Rightarrow> Seconds" where
  "now c = currentTime c + lookAhead c"

definition immediate :: "Context \<Rightarrow> Seconds" where
  "immediate c = currentTime c"

text \<open>
  \<open>sampleTime\<close> is \<open>1 / sampleRate\<close>. The sample rate of an audio context is
  positive; at \<open>0\<close> JavaScript yields \<open>Infinity\<close> where HOL yields \<open>0\<close>, so
  statements about \<open>sampleTime\<close> assume a positive rate.
\<close>

definition sampleTime :: "Context \<Rightarrow> Seconds" where
  "sampleTime c = 1 / sampleRate c"

text \<open>
  Modelled from the spec: \<open>toSeconds\<close> builds a \<open>TimeClass\<close>, which is not among the
  sources. A plain number is a time in seconds already (the spec's bridge formula reads
  the stored seconds of an event unconverted).
\<close>

fun toSeconds :: "Context \<Rightarrow> Time option \<Rightarrow> Seconds" where
  "toSeconds c (Some (TNumber x)) = x"
| "toSeconds c (Some (TString s)) = secondsOfString c s"
| "toSeconds c None = secondsOfUndefined c"

section \<open>The source\<close>

text \<open>
  The abstract methods \<open>_start\<close>, \<open>_stop\<close> and \<open>restart\<close> belong to the concrete
  unit. The model records each invocation with its arguments, in order.
\<close>

datatype Call =
    Call_start Seconds "Time option" "Time option"
  | Call_stop Seconds
  | Call_restart Seconds "Time option" "Time option"

record Source =
  ident :: nat
  p_state :: StateTimeline
  p_synced :: bool
  p_scheduled :: "nat list"
  p_syncedStart :: Callback
  p_syncedStop :: Callback
  onstop :: bool
  calls :: "Call list"

text \<open>
  A source and the context it runs in. The fields \<open>p_state\<close>, \<open>p_synced\<close>,
  \<open>p_scheduled\<close>, \<open>p_syncedStart\<close> and \<open>p_syncedStop\<close> are the members
  \<open>_state\<close>, \<open>_synced\<close>, \<open>_scheduled\<close>, \<open>_syncedStart\<close> and
  \<open>_syncedStop\<close>; \<open>u_start\<close> and \<open>u_stop\<close> below are the methods \<open>_start\<close>
  and \<open>_stop\<close>, and \<open>playbackState\<close> is the getter \<open>state\<close>. \<open>ident\<close> is the
  identity of the object, by which its closures on the transport are told from those
  of other sources. The volume stage and \<open>mute\<close> are outside the model;
  \<open>onstop\<close> only records whether a callback other than \<open>noOp\<close> is stored.
\<close>

record World =
  ctx :: Context
  source :: Source

text \<open>The constructor: a timeline with default \<open>stopped\<close> and \<open>memory = 100\<close>.\<close>

definition newSource :: "nat \<Rightarrow> bool \<Rightarrow> Source" where
  "newSource i cb =
     \<lparr>ident = i, p_state = \<lparr>events = [], memory = 100\<rparr>, p_synced = False,
      p_scheduled = [], p_syncedStart = NoOp, p_syncedStop = NoOp, onstop = cb, calls = []\<rparr>"

definition invoked :: "Call \<Rightarrow> World \<Rightarrow> World" where
  "invoked k w = w\<lparr>source := (source w)\<lparr>calls := calls (source w) @ [k]\<rparr>\<rparr>"

definition u_start :: "Seconds \<Rightarrow> Time option \<Rightarrow> Time option \<Rightarrow> World \<Rightarrow> World" where
  "u_start t off dur w = invoked (Call_start t off dur) w"

definition u_stop :: "Seconds \<Rightarrow> World \<Rightarrow> World" where
  "u_stop t w = invoked (Call_stop t) w"

definition restart :: "Seconds \<Rightarrow> Time option \<Rightarrow> Time option \<Rightarrow> World \<Rightarrow> World" where
  "restart t off dur w = invoked (Call_restart t off dur) w"

text \<open>The getter \<open>state\<close>.\<close>

definition playbackState :: "World \<Rightarrow> BasicPlaybackState" where
  "playbackState w =
     (if p_synced (source w)
      then (if tstate (transport (ctx w)) = TStarted
            then getValueAtTime (p_state (source w)) (seconds (transport (ctx w)))
            else Stopped)
      else getValueAtTime (p_state (source w)) (now (ctx w)))"

text \<open>The closure \<open>_syncedStart\<close> that \<open>sync\<close> creates.\<close>

definition syncedStart :: "Seconds \<Rightarrow> Seconds \<Rightarrow> World \<Rightarrow> World" where
  "syncedStart t off w =
     (if off > 0
      then (case get (p_state (source w)) off of
              None \<Rightarrow> w
            | Some stateEvent \<Rightarrow>
                if state stateEvent = Started \<and> time stateEvent \<noteq> off
                then (let startOffset = off - toSeconds (ctx w) (Some (TNumber (time stateEvent)));
                          dur = (if truthyNumber (duration stateEvent)
                                 then Some (TNumber (toSeconds (ctx w)
                                        (map_option TNumber (duration stateEvent)) - startOffset))
                                 else None)
                      in u_start t
                           (Some (TNumber (toSeconds (ctx w)
                              (map_option TNumber (offset stateEvent)) + startOffset)))
                           dur w)
                else w)
      else w)"

text \<open>The closure \<open>_syncedStop\<close> that \<open>sync\<close> creates.\<close>

definition syncedStop :: "Seconds \<Rightarrow> World \<Rightarrow> World" where
  "syncedStop t w =
     (let secs = getSecondsAtTime (transport (ctx w)) (max (t - sampleTime (ctx w)) 0)
      in if getValueAtTime (p_state (source w)) secs = Started then u_stop t w else w)"

text \<open>Calling one of the stored functions with \<open>(time, offset)\<close>.\<close>

fun invoke :: "Callback \<Rightarrow> Seconds \<Rightarrow> Seconds \<Rightarrow> World \<Rightarrow> World" where
  "invoke NoOp t off w = w"
| "invoke SyncedStart t off w = syncedStart t off w"
| "invoke SyncedStop t off w = syncedStop t w"

text \<open>
  The time \<open>start\<close> and \<open>stop\<close> compute first (the local \<open>computedTime\<close>; both
  methods hold the same expression). The call of \<open>this.log\<close> that follows it only
  prints and is left out.
\<close>

definition computedTime :: "Context \<Rightarrow> bool \<Rightarrow> Time option \<Rightarrow> Seconds" where
  "computedTime c syn tm =
     (if tm = None \<and> syn then seconds (transport c)
      else max (toSeconds c tm) (currentTime c))"

definition start :: "Time option \<Rightarrow> Time option \<Rightarrow> Time option \<Rightarrow> World \<Rightarrow> World" where
  "start tm off dur w =
     (let s = source w; c = ctx w;
          computed = computedTime c (p_synced s) tm
      in if getValueAtTime (p_state s) computed = Started
         then restart computed off dur
                (w\<lparr>source := s\<lparr>p_state :=
                     setStateAtTime Started computed (cancel computed (p_state s))\<rparr>\<rparr>)
         else
           (let st1 = setStateAtTime Started computed (p_state s)
            in if p_synced s
               then
                 (let st2 = (case get st1 computed of
                               None \<Rightarrow> st1
                             | Some ev \<Rightarrow>
                                 assignExtras ev
                                   (Some (toSeconds c (Some (defaultArg off (TNumber 0)))))
                                   (if truthy dur then Some (toSeconds c dur) else None) st1);
                      sched = schedule (ident s, DeferStart off dur) computed (transport c);
                      w1 = w\<lparr>ctx := c\<lparr>transport := snd sched\<rparr>,
                             source := s\<lparr>p_state := st2,
                                         p_scheduled := p_scheduled s @ [fst sched]\<rparr>\<rparr>
                  in if tstate (transport c) = TStarted
                     then invoke (p_syncedStart s) (now c) (seconds (transport c)) w1
                     else w1)
               else u_start computed off dur (w\<lparr>source := s\<lparr>p_state := st1\<rparr>\<rparr>)))"

definition stop :: "Time option \<Rightarrow> World \<Rightarrow> World" where
  "stop tm w =
     (let s = source w; c = ctx w;
          computed = computedTime c (p_synced s) tm;
          w1 = (if \<not> p_synced s then u_stop computed w
                else (let sched = schedule (ident s, DeferStop) computed (transport c)
                      in w\<lparr>ctx := c\<lparr>transport := snd sched\<rparr>,
                           source := s\<lparr>p_scheduled := p_scheduled s @ [fst sched]\<rparr>\<rparr>))
      in w1\<lparr>source := (source w1)\<lparr>p_state :=
              setStateAtTime Stopped computed (cancel computed (p_state (source w1)))\<rparr>\<rparr>)"

definition sync :: "World \<Rightarrow> World" where
  "sync w =
     (if \<not> p_synced (source w)
      then (let s = (source w)\<lparr>p_synced := True, p_syncedStart := SyncedStart,
                                p_syncedStop := SyncedStop\<rparr>;
                c = ctx w;
                tr = transportOn EvLoopEnd (ident s, p_syncedStop s)
                      (transportOn EvPause (ident s, p_syncedStop s)
                        (transportOn EvStop (ident s, p_syncedStop s)
                          (transportOn EvLoopStart (ident s, p_syncedStart s)
                            (transportOn EvStart (ident s, p_syncedStart s) (transport c)))))
            in w\<lparr>ctx := c\<lparr>transport := tr\<rparr>, source := s\<rparr>)
      else w)"

definition unsync :: "World \<Rightarrow> World" where
  "unsync w =
     (let s = source w; c = ctx w;
          tr1 = (if p_synced s
                 then transportOff EvLoopStart (ident s, p_syncedStart s)
                       (transportOff EvStart (ident s, p_syncedStart s)
                         (transportOff EvLoopEnd (ident s, p_syncedStop s)
                           (transportOff EvPause (ident s, p_syncedStop s)
                             (transportOff EvStop (ident s, p_syncedStop s) (transport c)))))
                 else transport c);
          tr2 = foldl (\<lambda>tr i. clear i tr) tr1 (p_scheduled s)
      in w\<lparr>ctx := c\<lparr>transport := tr2\<rparr>,
           source := s\<lparr>p_synced := False, p_scheduled := [], p_state := cancel 0 (p_state s)\<rparr>\<rparr>)"

text \<open>
  \<open>dispose\<close>: after \<open>super.dispose()\<close> (outside the model) it sets \<open>onstop\<close> to
  \<open>noOp\<close>, calls \<open>unsync\<close>, and disposes the volume stage (outside the model) and the
  timeline.
\<close>

definition dispose :: "World \<Rightarrow> World" where
  "dispose w =
     (let w1 = unsync (w\<lparr>source := (source w)\<lparr>onstop := False\<rparr>\<rparr>)
      in w1\<lparr>source := (source w1)\<lparr>p_state := disposeTimeline (p_state (source w1))\<rparr>\<rparr>)"

text \<open>
  Modelled from the spec: the transport emitting a lifecycle event with
  \<open>(time, offset)\<close> calls every listener registered for that event; the listeners of
  other sources do not touch this one.
\<close>

definition emit :: "TransportEvent \<Rightarrow> Seconds \<Rightarrow> Seconds \<Rightarrow> World \<Rightarrow> World" where
  "emit ev t off w =
     foldl (\<lambda>w' l. if fst l = ev \<and> fst (snd l) = ident (source w')
                    then invoke (snd (snd l)) t off w' else w')
       w (listeners (transport (ctx w)))"

section \<open>Sequences of calls\<close>

text \<open>
  What can happen to a source between its construction and its disposal: the public
  calls, a lifecycle event of the transport, and the two clocks moving on.
\<close>

datatype Action =
    Start "Time option" "Time option" "Time option"
  | Stop "Time option"
  | Sync
  | Unsync
  | Emit TransportEvent Seconds Seconds
  | Clock Seconds Seconds PlaybackState

fun perform :: "Action \<Rightarrow> World \<Rightarrow> World" where
  "perform (Start tm offs dur) w = start tm offs dur w"
| "perform (Stop tm) w = stop tm w"
| "perform Sync w = sync w"
| "perform Unsync w = unsync w"
| "perform (Emit ev t offs) w = emit ev t offs w"
| "perform (Clock t secs st) w =
     w\<lparr>ctx := (ctx w)\<lparr>currentTime := t,
            transport := (transport (ctx w))\<lparr>seconds := secs, tstate := st\<rparr>\<rparr>\<rparr>"

fun run :: "Action list \<Rightarrow> World \<Rightarrow> World" where
  "run [] w = w"
| "run (a # as) w = run as (perform a w)"

fun isStartStop :: "Action \<Rightarrow> bool" where
  "isStartStop (Start tm offs dur) = True"
| "isStartStop (Stop tm) = True"
| "isStartStop a = False"

section \<open>Registrations of a source on the transport\<close>

text \<open>The five listeners \<open>sync\<close> installs for the source with identity \<open>i\<close>.\<close>

definition bridgeListeners :: "nat \<Rightarrow> (TransportEvent \<times> nat \<times> Callback) list" where
  "bridgeListeners i =
     [(EvStart, i, SyncedStart), (EvLoopStart, i, SyncedStart),
      (EvStop, i, SyncedStop), (EvPause, i, SyncedStop), (EvLoopEnd, i, SyncedStop)]"

definition ownListeners :: "nat \<Rightarrow> Transport \<Rightarrow> (TransportEvent \<times> nat \<times> Callback) list" where
  "ownListeners i tr = filter (\<lambda>l. fst (snd l) = i) (listeners tr)"

definition otherListeners :: "nat \<Rightarrow> Transport \<Rightarrow> (TransportEvent \<times> nat \<times> Callback) list" where
  "otherListeners i tr = filter (\<lambda>l. fst (snd l) \<noteq> i) (listeners tr)"

definition ownCallbacks :: "nat \<Rightarrow> Transport \<Rightarrow> (nat \<times> Seconds \<times> nat \<times> Deferred) list" where
  "ownCallbacks i tr = filter (\<lambda>e. fst (snd (snd e)) = i) (timeline tr)"

definition otherCallbacks :: "nat \<Rightarrow> Transport \<Rightarrow> (nat \<times> Seconds \<times> nat \<times> Deferred) list" where
  "otherCallbacks i tr = filter (\<lambda>e. fst (snd (snd e)) \<noteq> i) (timeline tr)"

text \<open>
  The bookkeeping of a source agrees with the transport: its listeners are the five of
  \<open>sync\<close> while it is synced and none otherwise, the two stored functions are the
  closures while it is synced, an unsynced source tracks no identifier, every identifier
  on the transport was issued by the counter, and a callback on the transport is this
  source's exactly when its identifier is tracked.
\<close>

definition consistent :: "World \<Rightarrow> bool" where
  "consistent w \<longleftrightarrow>
     ownListeners (ident (source w)) (transport (ctx w)) =
       (if p_synced (source w) then bridgeListeners (ident (source w)) else [])
     \<and> (p_synced (source w) \<longrightarrow>
          p_syncedStart (source w) = SyncedStart \<and> p_syncedStop (source w) = SyncedStop)
     \<and> (\<not> p_synced (source w) \<longrightarrow> p_scheduled (source w) = [])
     \<and> (\<forall>e \<in> set (timeline (transport (ctx w))). fst e < nextId (transport (ctx w)))
     \<and> (\<forall>e \<in> set (timeline (transport (ctx w))).
           (fst (snd (snd e)) = ident (source w)) = (fst e \<in> set (p_scheduled (source w))))"

text \<open>
  Both clocks and every recorded event are at or after time zero.
\<close>

definition nonnegative :: "World \<Rightarrow> bool" where
  "nonnegative w \<longleftrightarrow>
     0 \<le> currentTime (ctx w) \<and> 0 \<le> seconds (transport (ctx w))
     \<and> (\<forall>e \<in> set (events (p_state (source w))). 0 \<le> time e)"

section \<open>Example instances\<close>

definition exampleTransport :: Transport where
  "exampleTransport =
     \<lparr>tstate = TStopped, seconds = 0, getSecondsAtTime = (\<lambda>t. t), listeners = [],
      timeline = [], nextId = 0\<rparr>"

definition exampleContext :: Context where
  "exampleContext =
     \<lparr>currentTime = 0, lookAhead = 1 / 10, sampleRate = 44100, transport = exampleTransport,
      secondsOfString = (\<lambda>s. 0), secondsOfUndefined = 1 / 10\<rparr>"

definition exampleWorld :: World where
  "exampleWorld = \<lparr>ctx = exampleContext, source = newSource 7 True\<rparr>"

text \<open>The same new source when the rendering clock already stands at two seconds.\<close>

definition lateWorld :: World where
  "lateWorld = \<lparr>ctx = exampleContext\<lparr>currentTime := 2\<rparr>, source = newSource 7 True\<rparr>"

section \<open>Evaluation rules\<close>

lemmas example_defs = exampleTransport_def exampleContext_def exampleWorld_def lateWorld_def
  newSource_def

lemmas timeline_defs = getValueAtTime_def get_def setStateAtTime_def cancel_def newEvent_def
  assignExtras_def disposeTimeline_def

lemmas source_defs = start_def stop_def computedTime_def u_start_def u_stop_def restart_def
  invoked_def sync_def unsync_def schedule_def clear_def transportOn_def transportOff_def
  syncedStart_def syncedStop_def now_def sampleTime_def dispose_def emit_def playbackState_def

section \<open>The calls unfolded\<close>

lemma ctx_invoked [simp]: "ctx (invoked k w) = ctx w"
  by (simp add: invoked_def)

lemma ctx_syncedStart [simp]: "ctx (syncedStart t offs w) = ctx w"
  by (simp add: syncedStart_def u_start_def Let_def split: option.split)

lemma ctx_syncedStop [simp]: "ctx (syncedStop t w) = ctx w"
  by (simp add: syncedStop_def u_stop_def Let_def)

lemma ctx_invoke [simp]: "ctx (invoke cb t offs w) = ctx w"
  by (cases cb) simp_all

lemma stop_unsynced:
  assumes "\<not> p_synced (source w)"
  shows "stop tm w =
           w\<lparr>source := (source w)
               \<lparr>calls := calls (source w) @ [Call_stop (computedTime (ctx w) False tm)],
                p_state := setStateAtTime Stopped (computedTime (ctx w) False tm)
                             (cancel (computedTime (ctx w) False tm) (p_state (source w)))\<rparr>\<rparr>"
  using assms by (simp add: stop_def u_stop_def invoked_def Let_def)

lemma stop_synced:
  assumes "p_synced (source w)"
  shows "stop tm w =
           w\<lparr>ctx := (ctx w)\<lparr>transport := snd (schedule (ident (source w), DeferStop)
                                   (computedTime (ctx w) True tm) (transport (ctx w)))\<rparr>,
             source := (source w)
               \<lparr>p_scheduled := p_scheduled (source w) @ [nextId (transport (ctx w))],
                p_state := setStateAtTime Stopped (computedTime (ctx w) True tm)
                             (cancel (computedTime (ctx w) True tm) (p_state (source w)))\<rparr>\<rparr>"
  using assms by (simp add: stop_def schedule_def Let_def)

lemma start_restart:
  assumes "getValueAtTime (p_state (source w)) (computedTime (ctx w) (p_synced (source w)) tm) = Started"
  shows "start tm offs dur w =
           w\<lparr>source := (source w)
               \<lparr>p_state := setStateAtTime Started (computedTime (ctx w) (p_synced (source w)) tm)
                   (cancel (computedTime (ctx w) (p_synced (source w)) tm) (p_state (source w))),
                calls := calls (source w)
                   @ [Call_restart (computedTime (ctx w) (p_synced (source w)) tm) offs dur]\<rparr>\<rparr>"
  using assms by (simp add: start_def restart_def invoked_def Let_def)

lemma start_unsynced:
  assumes "getValueAtTime (p_state (source w)) (computedTime (ctx w) False tm) \<noteq> Started"
    and "\<not> p_synced (source w)"
  shows "start tm offs dur w =
           w\<lparr>source := (source w)
               \<lparr>p_state := setStateAtTime Started (computedTime (ctx w) False tm) (p_state (source w)),
                calls := calls (source w) @ [Call_start (computedTime (ctx w) False tm) offs dur]\<rparr>\<rparr>"
  using assms by (simp add: start_def u_start_def invoked_def Let_def)

lemma start_synced_ctx:
  assumes "getValueAtTime (p_state (source w)) (computedTime (ctx w) True tm) \<noteq> Started"
    and "p_synced (source w)"
  shows "ctx (start tm offs dur w) =
           (ctx w)\<lparr>transport := snd (schedule (ident (source w), DeferStart offs dur)
                                   (computedTime (ctx w) True tm) (transport (ctx w)))\<rparr>"
  using assms by (simp add: start_def Let_def)

section \<open>The timeline\<close>

subsection \<open>Queries on a timeline\<close>

lemma get_last:
  "get tml t =
     (if filter (\<lambda>e. time e \<le> t) (events tml) = [] then None
      else Some (last (filter (\<lambda>e. time e \<le> t) (events tml))))"
  by (cases "filter (\<lambda>e. time e \<le> t) (events tml)") (simp_all add: get_def)

lemma getValueAtTime_snoc_at:
  assumes "time e \<le> t"
  shows "getValueAtTime (tml\<lparr>events := es @ [e]\<rparr>) t = state e"
  using assms by (simp add: getValueAtTime_def get_last)

lemma getValueAtTime_snoc_before:
  assumes "t < time e"
  shows "getValueAtTime (tml\<lparr>events := es @ [e]\<rparr>) t = getValueAtTime (tml\<lparr>events := es\<rparr>) t"
  using assms by (simp add: getValueAtTime_def get_last)

lemma getValueAtTime_all_stopped:
  assumes "\<forall>e \<in> set (events tml). state e = Stopped"
  shows "getValueAtTime tml t = Stopped"
proof (cases "filter (\<lambda>e. time e \<le> t) (events tml)")
  case Nil
  then show ?thesis by (simp add: getValueAtTime_def get_def)
next
  case (Cons x xs)
  then have "last (x # xs) \<in> set (filter (\<lambda>e. time e \<le> t) (events tml))"
    using last_in_set [of "x # xs"] by simp
  then have "state (last (x # xs)) = Stopped"
    using assms by simp
  then show ?thesis
    using Cons by (simp add: getValueAtTime_def get_def)
qed

lemma getValueAtTime_no_events:
  assumes "events tml = []"
  shows "getValueAtTime tml t = Stopped"
  using assms by (simp add: getValueAtTime_def get_def)

subsection \<open>The timeline stays ordered\<close>

text \<open>
  The operations keep the events strictly ordered by time, so at most one event stands at
  a time, the head of the list is the oldest event, and \<open>get\<close> finds the latest event
  at or before the time asked for.
\<close>

lemma ordered_cancel:
  assumes "sorted_wrt (\<lambda>a b. time a < time b) (events tml)"
  shows "sorted_wrt (\<lambda>a b. time a < time b) (events (cancel t tml))"
  using assms by (simp add: cancel_def sorted_wrt_filter)

lemma ordered_setStateAtTime:
  assumes "sorted_wrt (\<lambda>a b. time a < time b) (events tml)"
  shows "sorted_wrt (\<lambda>a b. time a < time b) (events (setStateAtTime st t tml))"
proof -
  let ?es = "filter (\<lambda>e. time e < t) (events tml) @ [newEvent st t]
               @ filter (\<lambda>e. t < time e) (events tml)"
  have "sorted_wrt (\<lambda>a b. time a < time b) ?es"
    using assms by (auto simp: sorted_wrt_append sorted_wrt_filter newEvent_def)
  then have "sorted_wrt (\<lambda>a b. time a < time b) (drop (length ?es - memory tml) ?es)"
    by (rule sorted_wrt_drop)
  then show ?thesis
    by (simp add: setStateAtTime_def Let_def)
qed

lemma ordered_assignExtras:
  assumes "sorted_wrt (\<lambda>a b. time a < time b) (events tml)"
  shows "sorted_wrt (\<lambda>a b. time a < time b) (events (assignExtras ev a b tml))"
proof -
  have "sorted_wrt (\<lambda>a b. time a < time b) (map f es)"
    if "sorted_wrt (\<lambda>a b. time a < time b) es" and "\<forall>e. time (f e) = time e"
    for f :: "StateTimelineEvent \<Rightarrow> StateTimelineEvent" and es
    using that by (simp add: sorted_wrt_map)
  then show ?thesis
    using assms by (simp add: assignExtras_def)
qed

lemma memory_bound: "length (events (setStateAtTime st t tml)) \<le> memory tml"
proof -
  define es where "es = filter (\<lambda>e. time e < t) (events tml) @ [newEvent st t]
               @ filter (\<lambda>e. t < time e) (events tml)"
  have ev: "events (setStateAtTime st t tml) = drop (length es - memory tml) es"
    by (simp add: setStateAtTime_def Let_def es_def)
  show ?thesis
    unfolding ev by simp
qed

lemma get_latest:
  assumes "sorted_wrt (\<lambda>a b. time a < time b) (events tml)" and "get tml t = Some e"
  shows "e \<in> set (events tml) \<and> time e \<le> t
       \<and> (\<forall>e' \<in> set (events tml). time e' \<le> t \<longrightarrow> time e' \<le> time e)"
proof -
  let ?es = "filter (\<lambda>e. time e \<le> t) (events tml)"
  have ne: "?es \<noteq> []" and e: "e = last ?es"
    using assms(2) by (auto simp: get_last split: if_splits)
  have mem: "e \<in> set ?es"
    unfolding e using ne by (rule last_in_set)
  have ord: "sorted_wrt (\<lambda>a b. time a < time b) ?es"
    using assms(1) by (rule sorted_wrt_filter)
  have "time e' \<le> time e" if "e' \<in> set ?es" for e'
  proof -
    obtain xs where split: "?es = xs @ [e]"
      using ne e by (metis append_butlast_last_id)
    then have "e' \<in> set xs \<or> e' = e"
      using that by (metis Un_iff empty_iff empty_set insert_iff list.simps(15) set_append)
    moreover have "\<forall>x \<in> set xs. time x < time e"
      using ord unfolding split by (simp add: sorted_wrt_append)
    ultimately show ?thesis
      by auto
  qed
  then show ?thesis
    using mem by auto
qed

subsection \<open>Inserting after every recorded event\<close>

lemma setStateAtTime_at_end:
  assumes "\<forall>e \<in> set (events tml). time e < t" and "1 \<le> memory tml"
  shows "events (setStateAtTime st t tml)
           = drop (Suc (length (events tml)) - memory tml) (events tml) @ [newEvent st t]"
proof -
  have "filter (\<lambda>e. time e < t) (events tml) = events tml"
    using assms(1) by simp
  moreover have "filter (\<lambda>e. t < time e) (events tml) = []"
    using assms(1) by (intro filter_False) auto
  ultimately show ?thesis
    using assms(2) by (simp add: setStateAtTime_def Let_def)
qed

lemma memory_setStateAtTime [simp]: "memory (setStateAtTime st t tml) = memory tml"
  by (simp add: setStateAtTime_def Let_def)

lemma memory_cancel [simp]: "memory (cancel t tml) = memory tml"
  by (simp add: cancel_def)

lemma events_cancel: "events (cancel t tml) = filter (\<lambda>e. time e < t) (events tml)"
  by (simp add: cancel_def)

lemma setStateAtTime_after_cancel:
  assumes "1 \<le> memory tml"
  shows "events (setStateAtTime st t (cancel t tml))
           = drop (Suc (length (filter (\<lambda>e. time e < t) (events tml))) - memory tml)
               (filter (\<lambda>e. time e < t) (events tml)) @ [newEvent st t]"
  using assms setStateAtTime_at_end [of "cancel t tml" t st] by (simp add: events_cancel)

lemma Ball_drop:
  assumes "\<forall>x \<in> set xs. P x"
  shows "\<forall>x \<in> set (drop n xs). P x"
  using assms by (auto dest: in_set_dropD)

lemma start_stop_events:
  assumes unsynced: "\<not> p_synced (source w)"
    and mem: "2 \<le> memory (p_state (source w))"
    and hist: "\<forall>e \<in> set (events (p_state (source w))). state e = Stopped \<and> time e \<le> t0"
    and t0: "toSeconds (ctx w) a0 = t0" and t1: "toSeconds (ctx w) a1 = t1"
    and clock: "currentTime (ctx w) \<le> t0" and order: "t0 < t1"
  shows "\<exists>es. events (p_state (source (stop a1 (start a0 offs dur w))))
                 = es @ [newEvent Started t0, newEvent Stopped t1]
              \<and> (\<forall>e \<in> set es. state e = Stopped \<and> time e < t0)"
proof -
  let ?tml = "p_state (source w)"
  let ?w1 = "start a0 offs dur w"
  define A where "A = filter (\<lambda>e. time e < t0) (events ?tml)"
  define A1 where "A1 = drop (Suc (length A) - memory ?tml) A"
  define A2 where "A2 = drop (Suc (Suc (length A1)) - memory ?tml) A1"
  have c0: "computedTime (ctx w) False a0 = t0"
    using t0 clock by (simp add: computedTime_def)
  have c1: "computedTime (ctx w) False a1 = t1"
    using t1 clock order by (simp add: computedTime_def)
  have "getValueAtTime ?tml t0 = Stopped"
    using hist by (simp add: getValueAtTime_all_stopped)
  then have w1: "?w1 = w\<lparr>source := (source w)
               \<lparr>p_state := setStateAtTime Started t0 ?tml,
                calls := calls (source w) @ [Call_start t0 offs dur]\<rparr>\<rparr>"
    using start_unsynced [of w a0 offs dur] unsynced c0 by simp
  have none_after: "filter (\<lambda>e. t0 < time e) (events ?tml) = []"
    using hist by (intro filter_False) auto
  have ev1: "events (setStateAtTime Started t0 ?tml) = A1 @ [newEvent Started t0]"
    using mem none_after by (simp add: setStateAtTime_def Let_def A1_def A_def)
  have A: "\<forall>e \<in> set A. state e = Stopped \<and> time e < t0"
    using hist by (simp add: A_def)
  have A1: "\<forall>e \<in> set A1. state e = Stopped \<and> time e < t0"
    unfolding A1_def using A by (rule Ball_drop)
  have A2: "\<forall>e \<in> set A2. state e = Stopped \<and> time e < t0"
    unfolding A2_def using A1 by (rule Ball_drop)
  have "\<forall>e \<in> set (A1 @ [newEvent Started t0]). time e < t1"
    using A1 order by (auto simp: newEvent_def)
  then have keep: "filter (\<lambda>e. time e < t1) (events (setStateAtTime Started t0 ?tml))
            = A1 @ [newEvent Started t0]"
    unfolding ev1 by (rule filter_True)
  have "events (setStateAtTime Stopped t1 (cancel t1 (setStateAtTime Started t0 ?tml)))
          = drop (Suc (length (A1 @ [newEvent Started t0])) - memory ?tml)
              (A1 @ [newEvent Started t0]) @ [newEvent Stopped t1]"
    using mem setStateAtTime_after_cancel [of "setStateAtTime Started t0 ?tml" Stopped t1]
    by (simp only: keep memory_setStateAtTime)
  moreover have "drop (Suc (length (A1 @ [newEvent Started t0])) - memory ?tml)
              (A1 @ [newEvent Started t0]) = A2 @ [newEvent Started t0]"
    using mem by (simp add: A2_def)
  ultimately have ev2:
    "events (setStateAtTime Stopped t1 (cancel t1 (setStateAtTime Started t0 ?tml)))
          = A2 @ [newEvent Started t0, newEvent Stopped t1]"
    by simp
  have "stop a1 ?w1 = ?w1\<lparr>source := (source ?w1)
               \<lparr>calls := calls (source ?w1) @ [Call_stop t1],
                p_state := setStateAtTime Stopped t1 (cancel t1 (p_state (source ?w1)))\<rparr>\<rparr>"
    using stop_unsynced [of ?w1 a1] unsynced c1 by (simp add: w1)
  then have "events (p_state (source (stop a1 ?w1)))
          = A2 @ [newEvent Started t0, newEvent Stopped t1]"
    using ev2 by (simp add: w1)
  then show ?thesis
    using A2 by blast
qed

lemma getValueAtTime_three_phases:
  assumes ev: "events tml = es @ [newEvent Started t0, newEvent Stopped t1]"
    and es: "\<forall>e \<in> set es. state e = Stopped \<and> time e < t0"
  shows "getValueAtTime tml t = (if t0 \<le> t \<and> t < t1 then Started else Stopped)"
proof -
  have whole: "tml\<lparr>events := (es @ [newEvent Started t0]) @ [newEvent Stopped t1]\<rparr> = tml"
    using ev by simp
  show ?thesis
  proof (cases "t1 \<le> t")
    case True
    then have "getValueAtTime
                 (tml\<lparr>events := (es @ [newEvent Started t0]) @ [newEvent Stopped t1]\<rparr>) t = Stopped"
      using getValueAtTime_snoc_at [where e = "newEvent Stopped t1" and t = t and tml = tml
          and es = "es @ [newEvent Started t0]"]
      by (simp add: newEvent_def)
    then show ?thesis using True by (simp only: whole) simp
  next
    case False
    then have "getValueAtTime
                 (tml\<lparr>events := (es @ [newEvent Started t0]) @ [newEvent Stopped t1]\<rparr>) t
                 = getValueAtTime (tml\<lparr>events := es @ [newEvent Started t0]\<rparr>) t"
      using getValueAtTime_snoc_before [where e = "newEvent Stopped t1" and t = t and tml = tml
          and es = "es @ [newEvent Started t0]"]
      by (simp add: newEvent_def)
    then have skip: "getValueAtTime tml t
                 = getValueAtTime (tml\<lparr>events := es @ [newEvent Started t0]\<rparr>) t"
      by (simp only: whole)
    show ?thesis
    proof (cases "t0 \<le> t")
      case True
      then have "getValueAtTime (tml\<lparr>events := es @ [newEvent Started t0]\<rparr>) t = Started"
        using getValueAtTime_snoc_at [where e = "newEvent Started t0" and t = t and tml = tml and es = es]
        by (simp add: newEvent_def)
      then show ?thesis using skip True False by simp
    next
      case before: False
      then have "getValueAtTime (tml\<lparr>events := es @ [newEvent Started t0]\<rparr>) t
                   = getValueAtTime (tml\<lparr>events := es\<rparr>) t"
        using getValueAtTime_snoc_before [where e = "newEvent Started t0" and t = t and tml = tml and es = es]
        by (simp add: newEvent_def)
      moreover have "getValueAtTime (tml\<lparr>events := es\<rparr>) t = Stopped"
        using es by (simp add: getValueAtTime_all_stopped)
      ultimately show ?thesis using skip before by simp
    qed
  qed
qed

section \<open>What the calls leave alone\<close>

lemma source_invoked: "source (invoked k w) = (source w)\<lparr>calls := calls (source w) @ [k]\<rparr>"
  by (simp add: invoked_def)

lemma syncedStart_frame:
  "\<exists>ks. syncedStart t offs w = w\<lparr>source := (source w)\<lparr>calls := calls (source w) @ ks\<rparr>\<rparr>"
proof (cases "syncedStart t offs w = w")
  case True
  then have "syncedStart t offs w = w\<lparr>source := (source w)\<lparr>calls := calls (source w) @ []\<rparr>\<rparr>"
    by simp
  then show ?thesis by blast
next
  case False
  then obtain k where "syncedStart t offs w = invoked k w"
    by (auto simp: syncedStart_def u_start_def Let_def split: option.splits if_splits)
  then have "syncedStart t offs w = w\<lparr>source := (source w)\<lparr>calls := calls (source w) @ [k]\<rparr>\<rparr>"
    by (simp add: invoked_def)
  then show ?thesis by blast
qed

lemma syncedStop_frame:
  "\<exists>ks. syncedStop t w = w\<lparr>source := (source w)\<lparr>calls := calls (source w) @ ks\<rparr>\<rparr>"
proof (cases "syncedStop t w = w")
  case True
  then have "syncedStop t w = w\<lparr>source := (source w)\<lparr>calls := calls (source w) @ []\<rparr>\<rparr>"
    by simp
  then show ?thesis by blast
next
  case False
  then have "syncedStop t w = w\<lparr>source := (source w)\<lparr>calls := calls (source w) @ [Call_stop t]\<rparr>\<rparr>"
    by (auto simp: syncedStop_def u_stop_def invoked_def Let_def split: if_splits)
  then show ?thesis by blast
qed

lemma invoke_frame:
  "\<exists>ks. invoke cb t offs w = w\<lparr>source := (source w)\<lparr>calls := calls (source w) @ ks\<rparr>\<rparr>"
proof (cases cb)
  case NoOp
  then have "invoke cb t offs w = w\<lparr>source := (source w)\<lparr>calls := calls (source w) @ []\<rparr>\<rparr>"
    by simp
  then show ?thesis by blast
next
  case SyncedStart
  then show ?thesis using syncedStart_frame [of t offs w] by simp
next
  case SyncedStop
  then show ?thesis using syncedStop_frame [of t w] by simp
qed

lemma emit_frame:
  "\<exists>ks. emit ev t offs w = w\<lparr>source := (source w)\<lparr>calls := calls (source w) @ ks\<rparr>\<rparr>"
proof -
  have "\<exists>ks. foldl (\<lambda>w' l. if fst l = ev \<and> fst (snd l) = ident (source w')
                    then invoke (snd (snd l)) t offs w' else w') w ls
             = w\<lparr>source := (source w)\<lparr>calls := calls (source w) @ ks\<rparr>\<rparr>" for ls
  proof (induction ls arbitrary: w)
    case Nil
    have "w = w\<lparr>source := (source w)\<lparr>calls := calls (source w) @ []\<rparr>\<rparr>" by simp
    then show ?case by (metis foldl_Nil)
  next
    case (Cons l ls)
    let ?f = "\<lambda>w' l. if fst l = ev \<and> fst (snd l) = ident (source w')
                    then invoke (snd (snd l)) t offs w' else w'"
    obtain k1 where k1: "?f w l = w\<lparr>source := (source w)\<lparr>calls := calls (source w) @ k1\<rparr>\<rparr>"
    proof (cases "fst l = ev \<and> fst (snd l) = ident (source w)")
      case True
      then show ?thesis using invoke_frame [of "snd (snd l)" t offs w] that by auto
    next
      case False
      then have "?f w l = w\<lparr>source := (source w)\<lparr>calls := calls (source w) @ []\<rparr>\<rparr>" by auto
      then show ?thesis using that by blast
    qed
    obtain k2 where k2: "foldl ?f (?f w l) ls
        = (?f w l)\<lparr>source := (source (?f w l))\<lparr>calls := calls (source (?f w l)) @ k2\<rparr>\<rparr>"
      using Cons.IH [of "?f w l"] by blast
    have "foldl ?f w (l # ls) = w\<lparr>source := (source w)\<lparr>calls := calls (source w) @ (k1 @ k2)\<rparr>\<rparr>"
      using k2 by (simp add: k1)
    then show ?case by blast
  qed
  then show ?thesis by (simp add: emit_def)
qed

lemma ident_syncedStart [simp]: "ident (source (syncedStart t offs w)) = ident (source w)"
proof -
  obtain ks where "syncedStart t offs w = w\<lparr>source := (source w)\<lparr>calls := calls (source w) @ ks\<rparr>\<rparr>"
    using syncedStart_frame by blast
  then show ?thesis by simp
qed

lemma ident_syncedStop [simp]: "ident (source (syncedStop t w)) = ident (source w)"
proof -
  obtain ks where "syncedStop t w = w\<lparr>source := (source w)\<lparr>calls := calls (source w) @ ks\<rparr>\<rparr>"
    using syncedStop_frame by blast
  then show ?thesis by simp
qed

lemma ident_invoke [simp]: "ident (source (invoke cb t offs w)) = ident (source w)"
  by (cases cb) simp_all

text \<open>Only the listeners of this source matter to it when the transport emits an event.\<close>

lemma emit_own_listeners:
  "emit ev t offs w =
     foldl (\<lambda>w' l. if fst l = ev then invoke (snd (snd l)) t offs w' else w') w
       (ownListeners (ident (source w)) (transport (ctx w)))"
proof -
  have "foldl (\<lambda>w' l. if fst l = ev \<and> fst (snd l) = ident (source w')
                    then invoke (snd (snd l)) t offs w' else w') w ls
        = foldl (\<lambda>w' l. if fst l = ev then invoke (snd (snd l)) t offs w' else w') w
            (filter (\<lambda>l. fst (snd l) = ident (source w)) ls)" for ls
    by (induction ls arbitrary: w) simp_all
  then show ?thesis
    by (simp add: emit_def ownListeners_def)
qed

lemma emit_consistent:
  assumes "consistent w"
  shows "emit ev t offs w =
           (if p_synced (source w)
            then (if ev = EvStart \<or> ev = EvLoopStart then syncedStart t offs w
                  else syncedStop t w)
            else w)"
proof (cases "p_synced (source w)")
  case True
  then have "ownListeners (ident (source w)) (transport (ctx w)) = bridgeListeners (ident (source w))"
    using assms by (simp add: consistent_def)
  then show ?thesis
    using True by (cases ev) (simp_all add: emit_own_listeners bridgeListeners_def)
next
  case False
  then have "ownListeners (ident (source w)) (transport (ctx w)) = []"
    using assms by (simp add: consistent_def)
  then show ?thesis
    using False by (simp add: emit_own_listeners)
qed

section \<open>The sync-start bridge unfolded\<close>

lemma syncedStart_unfolded:
  "syncedStart r offs w =
     (case get (p_state (source w)) offs of
        None \<Rightarrow> w
      | Some e \<Rightarrow>
          if 0 < offs \<and> state e = Started \<and> time e \<noteq> offs
          then w\<lparr>source := (source w)\<lparr>calls := calls (source w) @
                 [Call_start r
                    (Some (TNumber ((case offset e of None \<Rightarrow> secondsOfUndefined (ctx w)
                                     | Some x \<Rightarrow> x) + (offs - time e))))
                    (case duration e of
                       None \<Rightarrow> None
                     | Some d \<Rightarrow> if d = 0 then None
                                else Some (TNumber (d - (offs - time e))))]\<rparr>\<rparr>
          else w)"
  by (auto simp: syncedStart_def u_start_def invoked_def Let_def split: option.splits)

lemma sync_start_at_zero:
  assumes "ownListeners i (transport c) = []" and "currentTime c = 0"
    and "tstate (transport c) \<noteq> TStarted"
  shows "start (Some (TNumber 0)) None None (sync \<lparr>ctx = c, source = newSource i cb\<rparr>)
         = \<lparr>ctx = c\<lparr>transport := (transport c)
                  \<lparr>listeners := listeners (transport c) @ bridgeListeners i,
                   timeline := timeline (transport c)
                                 @ [(nextId (transport c), 0, i, DeferStart None None)],
                   nextId := Suc (nextId (transport c))\<rparr>\<rparr>,
            source = (newSource i cb)
                  \<lparr>p_state := \<lparr>events = [(newEvent Started 0)\<lparr>offset := Some 0\<rparr>], memory = 100\<rparr>,
                   p_synced := True, p_scheduled := [nextId (transport c)],
                   p_syncedStart := SyncedStart, p_syncedStop := SyncedStop\<rparr>\<rparr>"
  using assms
  by (simp add: sync_def start_def newSource_def computedTime_def timeline_defs schedule_def
      transportOn_def bridgeListeners_def Let_def)

lemma sync_start_then_transport_start:
  assumes "ownListeners i (transport c) = []" and "currentTime c = 0"
    and "tstate (transport c) \<noteq> TStarted"
  shows "calls (source (emit EvStart r (1 / 2)
           (start (Some (TNumber 0)) None None (sync \<lparr>ctx = c, source = newSource i cb\<rparr>))))
         = [Call_start r (Some (TNumber (1 / 2))) None]"
proof -
  have "ownListeners i ((transport c)
                  \<lparr>listeners := listeners (transport c) @ bridgeListeners i,
                   timeline := timeline (transport c)
                                 @ [(nextId (transport c), 0, i, DeferStart None None)],
                   nextId := Suc (nextId (transport c))\<rparr>) = bridgeListeners i"
    using assms(1) by (simp add: ownListeners_def bridgeListeners_def)
  then show ?thesis
    unfolding sync_start_at_zero [OF assms] emit_own_listeners
    by (simp add: newSource_def bridgeListeners_def syncedStart_unfolded get_last newEvent_def)
qed

section \<open>Frames of start and stop\<close>

lemma start_synced:
  assumes "getValueAtTime (p_state (source w)) (computedTime (ctx w) True tm) \<noteq> Started"
    and "p_synced (source w)"
  shows "\<exists>ks. start tm offs dur w =
           w\<lparr>ctx := (ctx w)\<lparr>transport := snd (schedule (ident (source w), DeferStart offs dur)
                                   (computedTime (ctx w) True tm) (transport (ctx w)))\<rparr>,
             source := (source w)
               \<lparr>p_state :=
                  (case get (setStateAtTime Started (computedTime (ctx w) True tm)
                               (p_state (source w))) (computedTime (ctx w) True tm) of
                     None \<Rightarrow> setStateAtTime Started (computedTime (ctx w) True tm)
                               (p_state (source w))
                   | Some ev \<Rightarrow>
                       assignExtras ev
                         (Some (toSeconds (ctx w) (Some (defaultArg offs (TNumber 0)))))
                         (if truthy dur then Some (toSeconds (ctx w) dur) else None)
                         (setStateAtTime Started (computedTime (ctx w) True tm)
                            (p_state (source w)))),
                p_scheduled := p_scheduled (source w) @ [nextId (transport (ctx w))],
                calls := calls (source w) @ ks\<rparr>\<rparr>"
proof -
  let ?T = "computedTime (ctx w) True tm"
  let ?st1 = "setStateAtTime Started ?T (p_state (source w))"
  let ?st2 = "case get ?st1 ?T of None \<Rightarrow> ?st1
              | Some ev \<Rightarrow> assignExtras ev
                         (Some (toSeconds (ctx w) (Some (defaultArg offs (TNumber 0)))))
                         (if truthy dur then Some (toSeconds (ctx w) dur) else None) ?st1"
  let ?w1 = "w\<lparr>ctx := (ctx w)\<lparr>transport := snd (schedule (ident (source w), DeferStart offs dur)
                                   ?T (transport (ctx w)))\<rparr>,
             source := (source w)\<lparr>p_state := ?st2,
                p_scheduled := p_scheduled (source w) @ [nextId (transport (ctx w))]\<rparr>\<rparr>"
  have eq: "start tm offs dur w =
          (if tstate (transport (ctx w)) = TStarted
           then invoke (p_syncedStart (source w)) (now (ctx w)) (seconds (transport (ctx w))) ?w1
           else ?w1)"
    using assms by (simp add: start_def schedule_def Let_def)
  obtain ks where "invoke (p_syncedStart (source w)) (now (ctx w)) (seconds (transport (ctx w))) ?w1
           = ?w1\<lparr>source := (source ?w1)\<lparr>calls := calls (source ?w1) @ ks\<rparr>\<rparr>"
    using invoke_frame by blast
  then have "start tm offs dur w = ?w1\<lparr>source := (source ?w1)\<lparr>calls := calls (source ?w1) @ ks\<rparr>\<rparr>
           \<or> start tm offs dur w = ?w1\<lparr>source := (source ?w1)\<lparr>calls := calls (source ?w1) @ []\<rparr>\<rparr>"
    using eq by (cases "tstate (transport (ctx w)) = TStarted") (simp_all split del: if_split)
  then show ?thesis
  proof
    assume "start tm offs dur w = ?w1\<lparr>source := (source ?w1)\<lparr>calls := calls (source ?w1) @ ks\<rparr>\<rparr>"
    then show ?thesis by (intro exI [of _ ks]) (simp split del: if_split)
  next
    assume "start tm offs dur w = ?w1\<lparr>source := (source ?w1)\<lparr>calls := calls (source ?w1) @ []\<rparr>\<rparr>"
    then show ?thesis by (intro exI [of _ "[]"]) (simp split del: if_split)
  qed
qed

lemma memory_assignExtras [simp]: "memory (assignExtras ev a b tml) = memory tml"
  by (simp add: assignExtras_def)

lemma times_cancel: "time ` set (events (cancel t tml)) \<subseteq> time ` set (events tml)"
  by (auto simp: cancel_def)

lemma times_setStateAtTime:
  "time ` set (events (setStateAtTime st t tml)) \<subseteq> insert t (time ` set (events tml))"
proof -
  let ?es = "filter (\<lambda>e. time e < t) (events tml) @ [newEvent st t]
               @ filter (\<lambda>e. t < time e) (events tml)"
  have "set (drop (length ?es - memory tml) ?es) \<subseteq> set ?es"
    by (rule set_drop_subset)
  moreover have "time ` set ?es \<subseteq> insert t (time ` set (events tml))"
    by (auto simp: newEvent_def)
  ultimately have "time ` set (drop (length ?es - memory tml) ?es)
                     \<subseteq> insert t (time ` set (events tml))"
    by blast
  then show ?thesis
    by (simp add: setStateAtTime_def Let_def)
qed

lemma times_assignExtras:
  "time ` set (events (assignExtras ev a b tml)) = time ` set (events tml)"
proof -
  have "map time (map (\<lambda>e. if time e = time ev then e\<lparr>offset := a, duration := b\<rparr> else e)
                    (events tml)) = map time (events tml)"
    by (induction "events tml") auto
  then have "set (map time (events (assignExtras ev a b tml))) = set (map time (events tml))"
    by (simp add: assignExtras_def)
  then show ?thesis by simp
qed

lemma times_started_after_cancel:
  "time ` set (events (setStateAtTime st t (cancel t tml))) \<subseteq> insert t (time ` set (events tml))"
  using times_setStateAtTime [of st t "cancel t tml"] times_cancel [of t tml] by blast

lemma start_frame:
  "\<exists>st tl sch ks.
      start tm offs dur w =
        w\<lparr>ctx := (ctx w)\<lparr>transport := (transport (ctx w))
                 \<lparr>timeline := timeline (transport (ctx w)) @ tl,
                  nextId := nextId (transport (ctx w)) + length tl\<rparr>\<rparr>,
          source := (source w)\<lparr>p_state := st,
                      p_scheduled := p_scheduled (source w) @ sch,
                      calls := calls (source w) @ ks\<rparr>\<rparr>
      \<and> memory st = memory (p_state (source w))
      \<and> time ` set (events st)
          \<subseteq> insert (computedTime (ctx w) (p_synced (source w)) tm)
              (time ` set (events (p_state (source w))))
      \<and> (tl = [] \<and> sch = []
         \<or> p_synced (source w) \<and> sch = [nextId (transport (ctx w))]
           \<and> tl = [(nextId (transport (ctx w)), computedTime (ctx w) (p_synced (source w)) tm,
                    ident (source w), DeferStart offs dur)])"
proof -
  let ?T = "computedTime (ctx w) (p_synced (source w)) tm"
  let ?tml = "p_state (source w)"
  consider (again) "getValueAtTime ?tml ?T = Started"
    | (free) "getValueAtTime ?tml ?T \<noteq> Started" "\<not> p_synced (source w)"
    | (synced) "getValueAtTime ?tml ?T \<noteq> Started" "p_synced (source w)"
    by blast
  then show ?thesis
  proof cases
    case again
    let ?st = "setStateAtTime Started ?T (cancel ?T ?tml)"
    have "start tm offs dur w =
        w\<lparr>ctx := (ctx w)\<lparr>transport := (transport (ctx w))
                 \<lparr>timeline := timeline (transport (ctx w)) @ [],
                  nextId := nextId (transport (ctx w)) + length ([] :: (nat \<times> Seconds \<times> nat \<times> Deferred) list)\<rparr>\<rparr>,
          source := (source w)\<lparr>p_state := ?st,
                      p_scheduled := p_scheduled (source w) @ [],
                      calls := calls (source w) @ [Call_restart ?T offs dur]\<rparr>\<rparr>"
      using start_restart [OF again] by simp
    moreover have "memory ?st = memory ?tml" by simp
    moreover have "time ` set (events ?st) \<subseteq> insert ?T (time ` set (events ?tml))"
      by (rule times_started_after_cancel)
    ultimately show ?thesis by blast
  next
    case free
    let ?st = "setStateAtTime Started ?T ?tml"
    have "start tm offs dur w =
        w\<lparr>ctx := (ctx w)\<lparr>transport := (transport (ctx w))
                 \<lparr>timeline := timeline (transport (ctx w)) @ [],
                  nextId := nextId (transport (ctx w)) + length ([] :: (nat \<times> Seconds \<times> nat \<times> Deferred) list)\<rparr>\<rparr>,
          source := (source w)\<lparr>p_state := ?st,
                      p_scheduled := p_scheduled (source w) @ [],
                      calls := calls (source w) @ [Call_start ?T offs dur]\<rparr>\<rparr>"
      using start_unsynced [of w tm offs dur] free by simp
    moreover have "memory ?st = memory ?tml" by simp
    moreover have "time ` set (events ?st) \<subseteq> insert ?T (time ` set (events ?tml))"
      by (rule times_setStateAtTime)
    ultimately show ?thesis by blast
  next
    case synced
    let ?st1 = "setStateAtTime Started ?T ?tml"
    let ?st = "case get ?st1 ?T of None \<Rightarrow> ?st1
               | Some ev \<Rightarrow> assignExtras ev
                   (Some (toSeconds (ctx w) (Some (defaultArg offs (TNumber 0)))))
                   (if truthy dur then Some (toSeconds (ctx w) dur) else None) ?st1"
    let ?tl = "[(nextId (transport (ctx w)), ?T, ident (source w), DeferStart offs dur)]"
    obtain ks where "start tm offs dur w =
           w\<lparr>ctx := (ctx w)\<lparr>transport := snd (schedule (ident (source w), DeferStart offs dur)
                                   (computedTime (ctx w) True tm) (transport (ctx w)))\<rparr>,
             source := (source w)
               \<lparr>p_state :=
                  (case get (setStateAtTime Started (computedTime (ctx w) True tm)
                               (p_state (source w))) (computedTime (ctx w) True tm) of
                     None \<Rightarrow> setStateAtTime Started (computedTime (ctx w) True tm)
                               (p_state (source w))
                   | Some ev \<Rightarrow>
                       assignExtras ev
                         (Some (toSeconds (ctx w) (Some (defaultArg offs (TNumber 0)))))
                         (if truthy dur then Some (toSeconds (ctx w) dur) else None)
                         (setStateAtTime Started (computedTime (ctx w) True tm)
                            (p_state (source w)))),
                p_scheduled := p_scheduled (source w) @ [nextId (transport (ctx w))],
                calls := calls (source w) @ ks\<rparr>\<rparr>"
      using start_synced [of w tm offs dur] synced by auto
    moreover have ps: "p_synced (source w) = True"
      using synced(2) by simp
    ultimately have "start tm offs dur w =
        w\<lparr>ctx := (ctx w)\<lparr>transport := (transport (ctx w))
                 \<lparr>timeline := timeline (transport (ctx w)) @ ?tl,
                  nextId := nextId (transport (ctx w)) + length ?tl\<rparr>\<rparr>,
          source := (source w)\<lparr>p_state := ?st,
                      p_scheduled := p_scheduled (source w) @ [nextId (transport (ctx w))],
                      calls := calls (source w) @ ks\<rparr>\<rparr>"
      unfolding ps by (simp add: schedule_def split del: if_split)
    moreover have "memory ?st = memory ?tml"
      by (simp split: option.split)
    moreover have "time ` set (events ?st) \<subseteq> insert ?T (time ` set (events ?tml))"
      using times_setStateAtTime [of Started ?T ?tml]
      by (simp add: times_assignExtras split: option.split)
    ultimately show ?thesis using synced(2) by blast
  qed
qed

lemma stop_frame:
  "\<exists>tl sch ks.
      stop tm w =
        w\<lparr>ctx := (ctx w)\<lparr>transport := (transport (ctx w))
                 \<lparr>timeline := timeline (transport (ctx w)) @ tl,
                  nextId := nextId (transport (ctx w)) + length tl\<rparr>\<rparr>,
          source := (source w)
            \<lparr>p_state := setStateAtTime Stopped (computedTime (ctx w) (p_synced (source w)) tm)
                          (cancel (computedTime (ctx w) (p_synced (source w)) tm)
                             (p_state (source w))),
             p_scheduled := p_scheduled (source w) @ sch,
             calls := calls (source w) @ ks\<rparr>\<rparr>
      \<and> (tl = [] \<and> sch = []
         \<or> p_synced (source w) \<and> sch = [nextId (transport (ctx w))]
           \<and> tl = [(nextId (transport (ctx w)), computedTime (ctx w) (p_synced (source w)) tm,
                    ident (source w), DeferStop)])"
proof (cases "p_synced (source w)")
  case True
  let ?T = "computedTime (ctx w) (p_synced (source w)) tm"
  let ?tl = "[(nextId (transport (ctx w)), ?T, ident (source w), DeferStop)]"
  have "stop tm w =
        w\<lparr>ctx := (ctx w)\<lparr>transport := (transport (ctx w))
                 \<lparr>timeline := timeline (transport (ctx w)) @ ?tl,
                  nextId := nextId (transport (ctx w)) + length ?tl\<rparr>\<rparr>,
          source := (source w)
            \<lparr>p_state := setStateAtTime Stopped ?T (cancel ?T (p_state (source w))),
             p_scheduled := p_scheduled (source w) @ [nextId (transport (ctx w))],
             calls := calls (source w) @ []\<rparr>\<rparr>"
    using True by (simp add: stop_synced schedule_def)
  then show ?thesis using True by blast
next
  case False
  let ?T = "computedTime (ctx w) (p_synced (source w)) tm"
  have "stop tm w =
        w\<lparr>ctx := (ctx w)\<lparr>transport := (transport (ctx w))
                 \<lparr>timeline := timeline (transport (ctx w)) @ [],
                  nextId := nextId (transport (ctx w)) + length ([] :: (nat \<times> Seconds \<times> nat \<times> Deferred) list)\<rparr>\<rparr>,
          source := (source w)
            \<lparr>p_state := setStateAtTime Stopped ?T (cancel ?T (p_state (source w))),
             p_scheduled := p_scheduled (source w) @ [],
             calls := calls (source w) @ [Call_stop ?T]\<rparr>\<rparr>"
    using False by (simp add: stop_unsynced)
  then show ?thesis by blast
qed

text \<open>What \<open>start\<close> and \<open>stop\<close> never touch.\<close>

lemma start_keeps:
  "ident (source (start tm offs dur w)) = ident (source w)
   \<and> p_synced (source (start tm offs dur w)) = p_synced (source w)
   \<and> p_syncedStart (source (start tm offs dur w)) = p_syncedStart (source w)
   \<and> p_syncedStop (source (start tm offs dur w)) = p_syncedStop (source w)
   \<and> listeners (transport (ctx (start tm offs dur w))) = listeners (transport (ctx w))
   \<and> currentTime (ctx (start tm offs dur w)) = currentTime (ctx w)
   \<and> seconds (transport (ctx (start tm offs dur w))) = seconds (transport (ctx w))"
proof -
  obtain st tl sch ks where "start tm offs dur w =
        w\<lparr>ctx := (ctx w)\<lparr>transport := (transport (ctx w))
                 \<lparr>timeline := timeline (transport (ctx w)) @ tl,
                  nextId := nextId (transport (ctx w)) + length tl\<rparr>\<rparr>,
          source := (source w)\<lparr>p_state := st,
                      p_scheduled := p_scheduled (source w) @ sch,
                      calls := calls (source w) @ ks\<rparr>\<rparr>"
    using start_frame [of tm offs dur w] by blast
  then show ?thesis by simp
qed

lemma stop_keeps:
  "ident (source (stop tm w)) = ident (source w)
   \<and> p_synced (source (stop tm w)) = p_synced (source w)
   \<and> p_syncedStart (source (stop tm w)) = p_syncedStart (source w)
   \<and> p_syncedStop (source (stop tm w)) = p_syncedStop (source w)
   \<and> listeners (transport (ctx (stop tm w))) = listeners (transport (ctx w))
   \<and> currentTime (ctx (stop tm w)) = currentTime (ctx w)
   \<and> seconds (transport (ctx (stop tm w))) = seconds (transport (ctx w))"
proof -
  obtain tl sch ks where "stop tm w =
        w\<lparr>ctx := (ctx w)\<lparr>transport := (transport (ctx w))
                 \<lparr>timeline := timeline (transport (ctx w)) @ tl,
                  nextId := nextId (transport (ctx w)) + length tl\<rparr>\<rparr>,
          source := (source w)
            \<lparr>p_state := setStateAtTime Stopped (computedTime (ctx w) (p_synced (source w)) tm)
                          (cancel (computedTime (ctx w) (p_synced (source w)) tm)
                             (p_state (source w))),
             p_scheduled := p_scheduled (source w) @ sch,
             calls := calls (source w) @ ks\<rparr>\<rparr>"
    using stop_frame [of tm w] by blast
  then show ?thesis by simp
qed

text \<open>Identifiers and callbacks are only ever added by \<open>start\<close> and \<open>stop\<close>.\<close>

lemma start_appends:
  "\<exists>tl sch. timeline (transport (ctx (start tm offs dur w))) = timeline (transport (ctx w)) @ tl
     \<and> p_scheduled (source (start tm offs dur w)) = p_scheduled (source w) @ sch"
proof -
  obtain st tl sch ks where "start tm offs dur w =
        w\<lparr>ctx := (ctx w)\<lparr>transport := (transport (ctx w))
                 \<lparr>timeline := timeline (transport (ctx w)) @ tl,
                  nextId := nextId (transport (ctx w)) + length tl\<rparr>\<rparr>,
          source := (source w)\<lparr>p_state := st,
                      p_scheduled := p_scheduled (source w) @ sch,
                      calls := calls (source w) @ ks\<rparr>\<rparr>"
    using start_frame [of tm offs dur w] by blast
  then have "timeline (transport (ctx (start tm offs dur w))) = timeline (transport (ctx w)) @ tl
     \<and> p_scheduled (source (start tm offs dur w)) = p_scheduled (source w) @ sch"
    by simp
  then show ?thesis by blast
qed

lemma stop_appends:
  "\<exists>tl sch. timeline (transport (ctx (stop tm w))) = timeline (transport (ctx w)) @ tl
     \<and> p_scheduled (source (stop tm w)) = p_scheduled (source w) @ sch"
proof -
  obtain tl sch ks where "stop tm w =
        w\<lparr>ctx := (ctx w)\<lparr>transport := (transport (ctx w))
                 \<lparr>timeline := timeline (transport (ctx w)) @ tl,
                  nextId := nextId (transport (ctx w)) + length tl\<rparr>\<rparr>,
          source := (source w)
            \<lparr>p_state := setStateAtTime Stopped (computedTime (ctx w) (p_synced (source w)) tm)
                          (cancel (computedTime (ctx w) (p_synced (source w)) tm)
                             (p_state (source w))),
             p_scheduled := p_scheduled (source w) @ sch,
             calls := calls (source w) @ ks\<rparr>\<rparr>"
    using stop_frame [of tm w] by blast
  then have "timeline (transport (ctx (stop tm w))) = timeline (transport (ctx w)) @ tl
     \<and> p_scheduled (source (stop tm w)) = p_scheduled (source w) @ sch"
    by simp
  then show ?thesis by blast
qed

section \<open>Identifiers stay until unsync\<close>

lemma perform_appends:
  assumes "a \<noteq> Unsync"
  shows "\<exists>tl sch. timeline (transport (ctx (perform a w))) = timeline (transport (ctx w)) @ tl
     \<and> p_scheduled (source (perform a w)) = p_scheduled (source w) @ sch"
proof (cases a)
  case (Start tm offs dur)
  then show ?thesis using start_appends [of tm offs dur w] by simp
next
  case (Stop tm)
  then show ?thesis using stop_appends [of tm w] by simp
next
  case Sync
  have "timeline (transport (ctx (sync w))) = timeline (transport (ctx w)) @ []
     \<and> p_scheduled (source (sync w)) = p_scheduled (source w) @ []"
    by (simp add: sync_def transportOn_def Let_def)
  then show ?thesis using Sync by (metis perform.simps(3))
next
  case Unsync
  then show ?thesis using assms by simp
next
  case (Emit ev t offs)
  obtain ks where "emit ev t offs w = w\<lparr>source := (source w)\<lparr>calls := calls (source w) @ ks\<rparr>\<rparr>"
    using emit_frame by blast
  then have "timeline (transport (ctx (emit ev t offs w))) = timeline (transport (ctx w)) @ []
     \<and> p_scheduled (source (emit ev t offs w)) = p_scheduled (source w) @ []"
    by simp
  then show ?thesis using Emit by (metis perform.simps(5))
next
  case (Clock t secs st)
  have "timeline (transport (ctx (perform (Clock t secs st) w))) = timeline (transport (ctx w)) @ []
     \<and> p_scheduled (source (perform (Clock t secs st) w)) = p_scheduled (source w) @ []"
    by simp
  then show ?thesis using Clock by metis
qed

lemma run_appends:
  assumes "Unsync \<notin> set acts"
  shows "\<exists>tl sch. timeline (transport (ctx (run acts w))) = timeline (transport (ctx w)) @ tl
     \<and> p_scheduled (source (run acts w)) = p_scheduled (source w) @ sch"
  using assms
proof (induction acts arbitrary: w)
  case Nil
  have "timeline (transport (ctx w)) = timeline (transport (ctx w)) @ []
     \<and> p_scheduled (source w) = p_scheduled (source w) @ []"
    by simp
  then show ?case by (metis run.simps(1))
next
  case (Cons a acts)
  then have "a \<noteq> Unsync" and rest: "Unsync \<notin> set acts"
    by auto
  then obtain tl1 sch1 where
      one: "timeline (transport (ctx (perform a w))) = timeline (transport (ctx w)) @ tl1"
        "p_scheduled (source (perform a w)) = p_scheduled (source w) @ sch1"
    using perform_appends [of a w] by blast
  obtain tl2 sch2 where
      more: "timeline (transport (ctx (run acts (perform a w))))
               = timeline (transport (ctx (perform a w))) @ tl2"
        "p_scheduled (source (run acts (perform a w))) = p_scheduled (source (perform a w)) @ sch2"
    using Cons.IH [OF rest, of "perform a w"] by blast
  have "timeline (transport (ctx (run (a # acts) w))) = timeline (transport (ctx w)) @ (tl1 @ tl2)
     \<and> p_scheduled (source (run (a # acts) w)) = p_scheduled (source w) @ (sch1 @ sch2)"
    using one more by simp
  then show ?case by blast
qed

lemma single_event_after_cancel:
  assumes "1 \<le> memory tml"
  shows "filter (\<lambda>e. t \<le> time e) (events (setStateAtTime st t (cancel t tml))) = [newEvent st t]"
proof -
  let ?B = "filter (\<lambda>e. time e < t) (events tml)"
  let ?D = "drop (Suc (length ?B) - memory tml) ?B"
  have "\<forall>e \<in> set ?B. \<not> t \<le> time e"
    by auto
  then have "\<forall>e \<in> set ?D. \<not> t \<le> time e"
    by (rule Ball_drop)
  then have "filter (\<lambda>e. t \<le> time e) ?D = []"
    by (rule filter_False)
  then have "filter (\<lambda>e. t \<le> time e) (?D @ [newEvent st t]) = [newEvent st t]"
    by (simp add: newEvent_def)
  then show ?thesis
    using setStateAtTime_after_cancel [OF assms, of st t] by simp
qed

section \<open>Redundant sync and unsync\<close>

lemma cancel_cancel [simp]: "cancel t (cancel t tml) = cancel t tml"
  by (simp add: cancel_def)

lemma sync_synced:
  assumes "p_synced (source w)"
  shows "sync w = w"
  using assms by (simp add: sync_def)

lemma synced_sync [simp]: "p_synced (source (sync w))"
  by (simp add: sync_def Let_def)

lemma unsync_when_unsynced:
  assumes "\<not> p_synced (source w)"
  shows "unsync w =
           w\<lparr>ctx := (ctx w)\<lparr>transport :=
                    foldl (\<lambda>tr i. clear i tr) (transport (ctx w)) (p_scheduled (source w))\<rparr>,
             source := (source w)\<lparr>p_scheduled := [], p_state := cancel 0 (p_state (source w))\<rparr>\<rparr>"
proof -
  have "(source w)\<lparr>p_synced := False\<rparr> = source w"
    using assms by (cases "source w") simp
  then show ?thesis
    using assms by (simp add: unsync_def Let_def)
qed

lemma unsync_twice: "unsync (unsync w) = unsync w"
proof -
  have "\<not> p_synced (source (unsync w))"
    by (simp add: unsync_def Let_def)
  then have "unsync (unsync w) =
           (unsync w)\<lparr>ctx := (ctx (unsync w))\<lparr>transport :=
                    foldl (\<lambda>tr i. clear i tr) (transport (ctx (unsync w)))
                      (p_scheduled (source (unsync w)))\<rparr>,
             source := (source (unsync w))\<lparr>p_scheduled := [],
                         p_state := cancel 0 (p_state (source (unsync w)))\<rparr>\<rparr>"
    by (rule unsync_when_unsynced)
  moreover have "p_scheduled (source (unsync w)) = []"
    by (simp add: unsync_def Let_def)
  moreover have "cancel 0 (p_state (source (unsync w))) = p_state (source (unsync w))"
    by (simp add: unsync_def Let_def)
  ultimately show ?thesis
    by simp
qed

section \<open>Unsync\<close>

lemma foldl_clear:
  "foldl (\<lambda>tr i. clear i tr) tr ids
     = tr\<lparr>timeline := filter (\<lambda>e. fst e \<notin> set ids) (timeline tr)\<rparr>"
proof (induction ids arbitrary: tr)
  case Nil
  then show ?case by simp
next
  case (Cons i ids)
  have "filter (\<lambda>e. fst e \<notin> set ids) (filter (\<lambda>e. fst e \<noteq> i) (timeline tr))
          = filter (\<lambda>e. fst e \<notin> set (i # ids)) (timeline tr)"
    by (induction "timeline tr") auto
  then show ?case
    using Cons.IH [of "clear i tr"] by (simp add: clear_def)
qed

lemma unsync_synced:
  assumes "p_synced (source w)"
    and "p_syncedStart (source w) = SyncedStart" and "p_syncedStop (source w) = SyncedStop"
  shows "unsync w =
           w\<lparr>ctx := (ctx w)\<lparr>transport := (transport (ctx w))
                    \<lparr>listeners := filter (\<lambda>l. l \<notin> set (bridgeListeners (ident (source w))))
                                    (listeners (transport (ctx w))),
                     timeline := filter (\<lambda>e. fst e \<notin> set (p_scheduled (source w)))
                                   (timeline (transport (ctx w)))\<rparr>\<rparr>,
             source := (source w)\<lparr>p_synced := False, p_scheduled := [],
                         p_state := cancel 0 (p_state (source w))\<rparr>\<rparr>"
proof -
  have "filter (\<lambda>l. l \<noteq> (EvLoopStart, ident (source w), SyncedStart))
          (filter (\<lambda>l. l \<noteq> (EvStart, ident (source w), SyncedStart))
            (filter (\<lambda>l. l \<noteq> (EvLoopEnd, ident (source w), SyncedStop))
              (filter (\<lambda>l. l \<noteq> (EvPause, ident (source w), SyncedStop))
                (filter (\<lambda>l. l \<noteq> (EvStop, ident (source w), SyncedStop)) ls))))
        = filter (\<lambda>l. l \<notin> set (bridgeListeners (ident (source w)))) ls" for ls
    by (induction ls) (auto simp: bridgeListeners_def)
  then show ?thesis
    using assms by (simp add: unsync_def Let_def foldl_clear transportOff_def)
qed

lemma computedTime_nonnegative:
  assumes "0 \<le> currentTime c" and "0 \<le> seconds (transport c)"
  shows "0 \<le> computedTime c syn tm"
  using assms by (auto simp: computedTime_def le_max_iff_disj)

lemma nonnegative_start:
  assumes "nonnegative w"
  shows "nonnegative (start tm offs dur w)"
proof -
  let ?T = "computedTime (ctx w) (p_synced (source w)) tm"
  obtain st tl sch ks where shape: "start tm offs dur w =
        w\<lparr>ctx := (ctx w)\<lparr>transport := (transport (ctx w))
                 \<lparr>timeline := timeline (transport (ctx w)) @ tl,
                  nextId := nextId (transport (ctx w)) + length tl\<rparr>\<rparr>,
          source := (source w)\<lparr>p_state := st,
                      p_scheduled := p_scheduled (source w) @ sch,
                      calls := calls (source w) @ ks\<rparr>\<rparr>"
    and times: "time ` set (events st) \<subseteq> insert ?T (time ` set (events (p_state (source w))))"
    using start_frame [of tm offs dur w] by blast
  have "0 \<le> ?T"
    using assms by (simp add: nonnegative_def computedTime_nonnegative)
  then have "\<forall>x \<in> insert ?T (time ` set (events (p_state (source w)))). 0 \<le> x"
    using assms by (auto simp: nonnegative_def)
  then have "\<forall>e \<in> set (events st). 0 \<le> time e"
    using times by blast
  then show ?thesis
    using assms by (simp add: shape nonnegative_def)
qed

lemma nonnegative_stop:
  assumes "nonnegative w"
  shows "nonnegative (stop tm w)"
proof -
  let ?T = "computedTime (ctx w) (p_synced (source w)) tm"
  let ?st = "setStateAtTime Stopped ?T (cancel ?T (p_state (source w)))"
  obtain tl sch ks where shape: "stop tm w =
        w\<lparr>ctx := (ctx w)\<lparr>transport := (transport (ctx w))
                 \<lparr>timeline := timeline (transport (ctx w)) @ tl,
                  nextId := nextId (transport (ctx w)) + length tl\<rparr>\<rparr>,
          source := (source w)\<lparr>p_state := ?st,
                      p_scheduled := p_scheduled (source w) @ sch,
                      calls := calls (source w) @ ks\<rparr>\<rparr>"
    using stop_frame [of tm w] by blast
  have times: "time ` set (events ?st) \<subseteq> insert ?T (time ` set (events (p_state (source w))))"
    by (rule times_started_after_cancel)
  have "0 \<le> ?T"
    using assms by (simp add: nonnegative_def computedTime_nonnegative)
  then have "\<forall>x \<in> insert ?T (time ` set (events (p_state (source w)))). 0 \<le> x"
    using assms by (auto simp: nonnegative_def)
  then have "\<forall>e \<in> set (events ?st). 0 \<le> time e"
    using times by blast
  then show ?thesis
    using assms by (simp add: shape nonnegative_def)
qed

lemma run_start_stop_keeps:
  assumes "\<forall>a \<in> set acts. isStartStop a"
  shows "ident (source (run acts w)) = ident (source w)
   \<and> p_synced (source (run acts w)) = p_synced (source w)
   \<and> p_syncedStart (source (run acts w)) = p_syncedStart (source w)
   \<and> p_syncedStop (source (run acts w)) = p_syncedStop (source w)
   \<and> listeners (transport (ctx (run acts w))) = listeners (transport (ctx w))
   \<and> (nonnegative w \<longrightarrow> nonnegative (run acts w))"
  using assms
proof (induction acts arbitrary: w)
  case Nil
  then show ?case by simp
next
  case (Cons a acts)
  then have step: "isStartStop a" and rest: "\<forall>a \<in> set acts. isStartStop a"
    by simp_all
  have one: "ident (source (perform a w)) = ident (source w)
   \<and> p_synced (source (perform a w)) = p_synced (source w)
   \<and> p_syncedStart (source (perform a w)) = p_syncedStart (source w)
   \<and> p_syncedStop (source (perform a w)) = p_syncedStop (source w)
   \<and> listeners (transport (ctx (perform a w))) = listeners (transport (ctx w))
   \<and> (nonnegative w \<longrightarrow> nonnegative (perform a w))"
  proof (cases a)
    case (Start tm offs dur)
    then show ?thesis
      using start_keeps [of tm offs dur w] nonnegative_start [of w tm offs dur] by simp
  next
    case (Stop tm)
    then show ?thesis
      using stop_keeps [of tm w] nonnegative_stop [of w tm] by simp
  qed (use step in simp_all)
  show ?case
    using Cons.IH [OF rest, of "perform a w"] one by simp
qed

lemma sync_unsynced:
  assumes "\<not> p_synced (source w)"
  shows "sync w =
           w\<lparr>ctx := (ctx w)\<lparr>transport := (transport (ctx w))
                    \<lparr>listeners := listeners (transport (ctx w))
                                    @ bridgeListeners (ident (source w))\<rparr>\<rparr>,
             source := (source w)\<lparr>p_synced := True, p_syncedStart := SyncedStart,
                         p_syncedStop := SyncedStop\<rparr>\<rparr>"
  using assms by (simp add: sync_def Let_def transportOn_def bridgeListeners_def)

lemma cancel_nonnegative:
  assumes "\<forall>e \<in> set (events tml). 0 \<le> time e"
  shows "events (cancel 0 tml) = []"
proof -
  have "filter (\<lambda>e. time e < 0) (events tml) = []"
    using assms by (intro filter_False) auto
  then show ?thesis by (simp add: cancel_def)
qed

section \<open>Consistency of the bookkeeping\<close>

lemma consistent_frame:
  assumes "consistent w"
    and shape: "w' = w\<lparr>ctx := (ctx w)\<lparr>transport := (transport (ctx w))
                 \<lparr>timeline := timeline (transport (ctx w)) @ cbs,
                  nextId := nextId (transport (ctx w)) + length cbs\<rparr>\<rparr>,
          source := (source w)\<lparr>p_state := st,
                      p_scheduled := p_scheduled (source w) @ sch,
                      calls := ks\<rparr>\<rparr>"
    and added: "cbs = [] \<and> sch = []
         \<or> p_synced (source w) \<and> sch = [nextId (transport (ctx w))]
           \<and> cbs = [(nextId (transport (ctx w)), T, ident (source w), cb)]"
  shows "consistent w'"
  using added
proof
  assume "cbs = [] \<and> sch = []"
  then show ?thesis
    using assms(1) by (simp add: shape consistent_def ownListeners_def)
next
  assume "p_synced (source w) \<and> sch = [nextId (transport (ctx w))]
           \<and> cbs = [(nextId (transport (ctx w)), T, ident (source w), cb)]"
  then show ?thesis
    using assms(1) by (auto simp: shape consistent_def ownListeners_def)
qed

lemma consistent_start:
  assumes "consistent w"
  shows "consistent (start tm offs dur w)"
proof -
  obtain st tl sch ks where "start tm offs dur w =
        w\<lparr>ctx := (ctx w)\<lparr>transport := (transport (ctx w))
                 \<lparr>timeline := timeline (transport (ctx w)) @ tl,
                  nextId := nextId (transport (ctx w)) + length tl\<rparr>\<rparr>,
          source := (source w)\<lparr>p_state := st,
                      p_scheduled := p_scheduled (source w) @ sch,
                      calls := calls (source w) @ ks\<rparr>\<rparr>"
    and "tl = [] \<and> sch = []
         \<or> p_synced (source w) \<and> sch = [nextId (transport (ctx w))]
           \<and> tl = [(nextId (transport (ctx w)), computedTime (ctx w) (p_synced (source w)) tm,
                    ident (source w), DeferStart offs dur)]"
    using start_frame [of tm offs dur w] by blast
  then show ?thesis
    using consistent_frame [OF assms] by blast
qed

lemma consistent_stop:
  assumes "consistent w"
  shows "consistent (stop tm w)"
proof -
  obtain tl sch ks where "stop tm w =
        w\<lparr>ctx := (ctx w)\<lparr>transport := (transport (ctx w))
                 \<lparr>timeline := timeline (transport (ctx w)) @ tl,
                  nextId := nextId (transport (ctx w)) + length tl\<rparr>\<rparr>,
          source := (source w)
            \<lparr>p_state := setStateAtTime Stopped (computedTime (ctx w) (p_synced (source w)) tm)
                          (cancel (computedTime (ctx w) (p_synced (source w)) tm)
                             (p_state (source w))),
             p_scheduled := p_scheduled (source w) @ sch,
             calls := calls (source w) @ ks\<rparr>\<rparr>"
    and "tl = [] \<and> sch = []
         \<or> p_synced (source w) \<and> sch = [nextId (transport (ctx w))]
           \<and> tl = [(nextId (transport (ctx w)), computedTime (ctx w) (p_synced (source w)) tm,
                    ident (source w), DeferStop)]"
    using stop_frame [of tm w] by blast
  then show ?thesis
    using consistent_frame [OF assms] by blast
qed

lemma consistent_sync:
  assumes "consistent w"
  shows "consistent (sync w)"
proof (cases "p_synced (source w)")
  case True
  then show ?thesis using assms by (simp add: sync_synced)
next
  case False
  then show ?thesis
    using assms
    by (simp add: sync_unsynced consistent_def ownListeners_def bridgeListeners_def)
qed

lemma consistent_unsync:
  assumes "consistent w"
  shows "consistent (unsync w)"
proof (cases "p_synced (source w)")
  case True
  then have fns: "p_syncedStart (source w) = SyncedStart" "p_syncedStop (source w) = SyncedStop"
    and own: "ownListeners (ident (source w)) (transport (ctx w)) = bridgeListeners (ident (source w))"
    using assms by (simp_all add: consistent_def)
  have "filter (\<lambda>l. fst (snd l) = ident (source w))
          (filter (\<lambda>l. l \<notin> set (bridgeListeners (ident (source w)))) (listeners (transport (ctx w))))
        = filter (\<lambda>l. l \<notin> set (bridgeListeners (ident (source w))))
            (ownListeners (ident (source w)) (transport (ctx w)))"
    by (simp add: ownListeners_def conj_commute)
  then have "filter (\<lambda>l. fst (snd l) = ident (source w))
          (filter (\<lambda>l. l \<notin> set (bridgeListeners (ident (source w)))) (listeners (transport (ctx w))))
        = []"
    by (simp add: own)
  then show ?thesis
    using assms by (auto simp: unsync_synced [OF True fns] consistent_def ownListeners_def)
next
  case False
  then show ?thesis
    using assms by (auto simp: unsync_when_unsynced foldl_clear consistent_def ownListeners_def)
qed

lemma consistent_emit:
  assumes "consistent w"
  shows "consistent (emit ev t offs w)"
proof -
  obtain ks where "emit ev t offs w = w\<lparr>source := (source w)\<lparr>calls := calls (source w) @ ks\<rparr>\<rparr>"
    using emit_frame by blast
  then show ?thesis
    using assms by (simp add: consistent_def)
qed

lemma consistent_perform:
  assumes "consistent w"
  shows "consistent (perform a w)"
proof (cases a)
  case (Clock t secs st)
  then show ?thesis using assms by (simp add: consistent_def ownListeners_def)
qed (use assms in \<open>simp_all add: consistent_start consistent_stop consistent_sync
      consistent_unsync consistent_emit\<close>)

lemma consistent_run:
  assumes "consistent w"
  shows "consistent (run acts w)"
  using assms by (induction acts arbitrary: w) (simp_all add: consistent_perform)

section \<open>Disposal\<close>

lemma ident_perform [simp]: "ident (source (perform a w)) = ident (source w)"
proof (cases a)
  case (Start tm offs dur)
  then show ?thesis using start_keeps [of tm offs dur w] by simp
next
  case (Stop tm)
  then show ?thesis using stop_keeps [of tm w] by simp
next
  case Sync
  then show ?thesis by (simp add: sync_def Let_def)
next
  case Unsync
  then show ?thesis by (simp add: unsync_def Let_def)
next
  case (Emit ev t offs)
  obtain ks where "emit ev t offs w = w\<lparr>source := (source w)\<lparr>calls := calls (source w) @ ks\<rparr>\<rparr>"
    using emit_frame by blast
  then show ?thesis using Emit by simp
next
  case (Clock t secs st)
  then show ?thesis by simp
qed

lemma ident_run [simp]: "ident (source (run acts w)) = ident (source w)"
  by (induction acts arbitrary: w) simp_all

lemma unsync_others:
  assumes "consistent w"
  shows "otherListeners (ident (source w)) (transport (ctx (unsync w)))
           = otherListeners (ident (source w)) (transport (ctx w))
       \<and> otherCallbacks (ident (source w)) (transport (ctx (unsync w)))
           = otherCallbacks (ident (source w)) (transport (ctx w))"
proof -
  let ?i = "ident (source w)"
  have cbs: "filter (\<lambda>e. fst (snd (snd e)) \<noteq> ?i)
               (filter (\<lambda>e. fst e \<notin> set (p_scheduled (source w))) (timeline (transport (ctx w))))
             = filter (\<lambda>e. fst (snd (snd e)) \<noteq> ?i) (timeline (transport (ctx w)))"
    using assms by (auto simp: consistent_def intro!: filter_cong)
  have ls: "filter (\<lambda>l. fst (snd l) \<noteq> ?i)
              (filter (\<lambda>l. l \<notin> set (bridgeListeners ?i)) (listeners (transport (ctx w))))
            = filter (\<lambda>l. fst (snd l) \<noteq> ?i) (listeners (transport (ctx w)))"
    by (auto simp: bridgeListeners_def intro!: filter_cong)
  show ?thesis
  proof (cases "p_synced (source w)")
    case True
    then have "p_syncedStart (source w) = SyncedStart" "p_syncedStop (source w) = SyncedStop"
      using assms by (simp_all add: consistent_def)
    then show ?thesis
      using cbs ls by (simp add: unsync_synced [OF True] otherListeners_def otherCallbacks_def)
  next
    case False
    then show ?thesis
      using cbs by (simp add: unsync_when_unsynced foldl_clear otherListeners_def otherCallbacks_def)
  qed
qed

lemma unsync_clears:
  assumes "consistent w"
  shows "ownListeners (ident (source w)) (transport (ctx (unsync w))) = []
       \<and> ownCallbacks (ident (source w)) (transport (ctx (unsync w))) = []
       \<and> p_scheduled (source (unsync w)) = []
       \<and> \<not> p_synced (source (unsync w))"
proof -
  have c: "consistent (unsync w)"
    using assms by (rule consistent_unsync)
  have flag: "\<not> p_synced (source (unsync w))" and none: "p_scheduled (source (unsync w)) = []"
    and same: "ident (source (unsync w)) = ident (source w)"
    by (simp_all add: unsync_def Let_def)
  have "ownListeners (ident (source w)) (transport (ctx (unsync w))) = []"
    using c flag same by (simp add: consistent_def)
  moreover have "\<forall>e \<in> set (timeline (transport (ctx (unsync w)))).
                    fst (snd (snd e)) \<noteq> ident (source w)"
    using c none same by (simp add: consistent_def)
  then have "ownCallbacks (ident (source w)) (transport (ctx (unsync w))) = []"
    unfolding ownCallbacks_def by (intro filter_False) simp
  ultimately show ?thesis
    using flag none by simp
qed

lemma dispose_unsync:
  "dispose w =
     (unsync (w\<lparr>source := (source w)\<lparr>onstop := False\<rparr>\<rparr>))
       \<lparr>source := (source (unsync (w\<lparr>source := (source w)\<lparr>onstop := False\<rparr>\<rparr>)))
           \<lparr>p_state := disposeTimeline
              (p_state (source (unsync (w\<lparr>source := (source w)\<lparr>onstop := False\<rparr>\<rparr>))))\<rparr>\<rparr>"
  by (simp add: dispose_def Let_def)

lemma dispose_effect:
  assumes "consistent w"
  shows "consistent (dispose w)
       \<and> ident (source (dispose w)) = ident (source w)
       \<and> ownListeners (ident (source w)) (transport (ctx (dispose w))) = []
       \<and> ownCallbacks (ident (source w)) (transport (ctx (dispose w))) = []
       \<and> p_scheduled (source (dispose w)) = []
       \<and> \<not> p_synced (source (dispose w))
       \<and> events (p_state (source (dispose w))) = []
       \<and> otherListeners (ident (source w)) (transport (ctx (dispose w)))
           = otherListeners (ident (source w)) (transport (ctx w))
       \<and> otherCallbacks (ident (source w)) (transport (ctx (dispose w)))
           = otherCallbacks (ident (source w)) (transport (ctx w))"
proof -
  let ?w1 = "w\<lparr>source := (source w)\<lparr>onstop := False\<rparr>\<rparr>"
  have c1: "consistent ?w1"
    using assms by (simp add: consistent_def)
  have "consistent (unsync ?w1)"
    using c1 by (rule consistent_unsync)
  then have c: "consistent (dispose w)"
    by (simp add: dispose_unsync consistent_def)
  have same: "ident (source (dispose w)) = ident (source w)"
    by (simp add: dispose_unsync unsync_def Let_def)
  show ?thesis
    using c same unsync_clears [OF c1] unsync_others [OF c1]
    by (simp add: dispose_unsync disposeTimeline_def)
qed

section \<open>The timeline of a source stays ordered\<close>

lemma ordered_start:
  assumes "sorted_wrt (\<lambda>a b. time a < time b) (events (p_state (source w)))"
  shows "sorted_wrt (\<lambda>a b. time a < time b) (events (p_state (source (start tm offs dur w))))"
proof -
  let ?T = "computedTime (ctx w) (p_synced (source w)) tm"
  let ?tml = "p_state (source w)"
  consider (again) "getValueAtTime ?tml ?T = Started"
    | (free) "getValueAtTime ?tml ?T \<noteq> Started" "\<not> p_synced (source w)"
    | (synced) "getValueAtTime ?tml ?T \<noteq> Started" "p_synced (source w)"
    by blast
  then show ?thesis
  proof cases
    case again
    then show ?thesis
      using assms by (simp add: start_restart ordered_setStateAtTime ordered_cancel)
  next
    case free
    then show ?thesis
      using assms start_unsynced [of w tm offs dur] by (simp add: ordered_setStateAtTime)
  next
    case synced
    let ?st1 = "setStateAtTime Started (computedTime (ctx w) True tm) ?tml"
    have st1: "sorted_wrt (\<lambda>a b. time a < time b) (events ?st1)"
      using assms by (rule ordered_setStateAtTime)
    obtain ks where "start tm offs dur w =
           w\<lparr>ctx := (ctx w)\<lparr>transport := snd (schedule (ident (source w), DeferStart offs dur)
                                   (computedTime (ctx w) True tm) (transport (ctx w)))\<rparr>,
             source := (source w)
               \<lparr>p_state :=
                  (case get ?st1 (computedTime (ctx w) True tm) of
                     None \<Rightarrow> ?st1
                   | Some ev \<Rightarrow>
                       assignExtras ev
                         (Some (toSeconds (ctx w) (Some (defaultArg offs (TNumber 0)))))
                         (if truthy dur then Some (toSeconds (ctx w) dur) else None) ?st1),
                p_scheduled := p_scheduled (source w) @ [nextId (transport (ctx w))],
                calls := calls (source w) @ ks\<rparr>\<rparr>"
      using start_synced [of w tm offs dur] synced by auto
    then have "p_state (source (start tm offs dur w)) =
                  (case get ?st1 (computedTime (ctx w) True tm) of
                     None \<Rightarrow> ?st1
                   | Some ev \<Rightarrow>
                       assignExtras ev
                         (Some (toSeconds (ctx w) (Some (defaultArg offs (TNumber 0)))))
                         (if truthy dur then Some (toSeconds (ctx w) dur) else None) ?st1)"
      by simp
    then show ?thesis
      using st1 by (simp add: ordered_assignExtras split: option.split)
  qed
qed

lemma ordered_stop:
  assumes "sorted_wrt (\<lambda>a b. time a < time b) (events (p_state (source w)))"
  shows "sorted_wrt (\<lambda>a b. time a < time b) (events (p_state (source (stop tm w))))"
proof -
  obtain tl sch ks where "stop tm w =
        w\<lparr>ctx := (ctx w)\<lparr>transport := (transport (ctx w))
                 \<lparr>timeline := timeline (transport (ctx w)) @ tl,
                  nextId := nextId (transport (ctx w)) + length tl\<rparr>\<rparr>,
          source := (source w)
            \<lparr>p_state := setStateAtTime Stopped (computedTime (ctx w) (p_synced (source w)) tm)
                          (cancel (computedTime (ctx w) (p_synced (source w)) tm)
                             (p_state (source w))),
             p_scheduled := p_scheduled (source w) @ sch,
             calls := calls (source w) @ ks\<rparr>\<rparr>"
    using stop_frame [of tm w] by blast
  then show ?thesis
    using assms by (simp add: ordered_setStateAtTime ordered_cancel)
qed

lemma ordered_perform:
  assumes "sorted_wrt (\<lambda>a b. time a < time b) (events (p_state (source w)))"
  shows "sorted_wrt (\<lambda>a b. time a < time b) (events (p_state (source (perform a w))))"
proof (cases a)
  case (Start tm offs dur)
  then show ?thesis using assms by (simp add: ordered_start)
next
  case (Stop tm)
  then show ?thesis using assms by (simp add: ordered_stop)
next
  case Sync
  then show ?thesis using assms by (simp add: sync_def Let_def)
next
  case Unsync
  then show ?thesis using assms by (simp add: unsync_def Let_def ordered_cancel)
next
  case (Emit ev t offs)
  obtain ks where "emit ev t offs w = w\<lparr>source := (source w)\<lparr>calls := calls (source w) @ ks\<rparr>\<rparr>"
    using emit_frame by blast
  then show ?thesis using Emit assms by simp
next
  case (Clock t secs st)
  then show ?thesis using assms by simp
qed

text \<open>From a new source on, every timeline is strictly ordered by time.\<close>

lemma ordered_run:
  assumes "sorted_wrt (\<lambda>a b. time a < time b) (events (p_state (source w)))"
  shows "sorted_wrt (\<lambda>a b. time a < time b) (events (p_state (source (run acts w))))"
  using assms by (induction acts arbitrary: w) (simp_all add: ordered_perform)

lemma ordered_new:
  "sorted_wrt (\<lambda>a b. time a < time b)
     (events (p_state (source (run acts \<lparr>ctx = c, source = newSource i cb\<rparr>))))"
  by (rule ordered_run) (simp add: newSource_def)

section \<open>Properties stated by the specification\<close>

subsection \<open>start, then stop\<close>

text \<open>
  C1. On an unsynced source whose timeline so far holds only \<open>stopped\<close> events, none
  later than \<open>t0\<close> (a new source has none at all), and with
  \<open>currentTime \<le> t0 < t1\<close>: after \<open>start\<close> at \<open>t0\<close> and then \<open>stop\<close> at
  \<open>t1\<close> the timeline reports \<open>stopped\<close> at every \<open>t < t0\<close>, \<open>started\<close> at
  every \<open>t0 \<le> t < t1\<close> and \<open>stopped\<close> at every \<open>t \<ge> t1\<close>.
\<close>

theorem start_then_stop:
  assumes "\<not> p_synced (source w)"
    and "2 \<le> memory (p_state (source w))"
    and "\<forall>e \<in> set (events (p_state (source w))). state e = Stopped \<and> time e \<le> t0"
    and "toSeconds (ctx w) a0 = t0" and "toSeconds (ctx w) a1 = t1"
    and "currentTime (ctx w) \<le> t0" and "t0 < t1"
  shows "getValueAtTime (p_state (source (stop a1 (start a0 offs dur w)))) t
           = (if t0 \<le> t \<and> t < t1 then Started else Stopped)"
proof -
  obtain es where "events (p_state (source (stop a1 (start a0 offs dur w))))
                     = es @ [newEvent Started t0, newEvent Stopped t1]"
    and "\<forall>e \<in> set es. state e = Stopped \<and> time e < t0"
    using start_stop_events [OF assms] by blast
  then show ?thesis
    by (rule getValueAtTime_three_phases)
qed

theorem start_then_stop_witness:
  "\<not> p_synced (source exampleWorld)
   \<and> 2 \<le> memory (p_state (source exampleWorld))
   \<and> events (p_state (source exampleWorld)) = []
   \<and> currentTime (ctx exampleWorld) \<le> 1
   \<and> getValueAtTime (p_state (source
         (stop (Some (TNumber 3)) (start (Some (TNumber 1)) None None exampleWorld)))) (1 / 2)
       = Stopped
   \<and> getValueAtTime (p_state (source
         (stop (Some (TNumber 3)) (start (Some (TNumber 1)) None None exampleWorld)))) 2
       = Started
   \<and> getValueAtTime (p_state (source
         (stop (Some (TNumber 3)) (start (Some (TNumber 1)) None None exampleWorld)))) (7 / 2)
       = Stopped"
  using start_then_stop [of exampleWorld 1 "Some (TNumber 1)" "Some (TNumber 3)" 3 None None "1 / 2"]
    start_then_stop [of exampleWorld 1 "Some (TNumber 1)" "Some (TNumber 3)" 3 None None 2]
    start_then_stop [of exampleWorld 1 "Some (TNumber 1)" "Some (TNumber 3)" 3 None None "7 / 2"]
  by (simp add: example_defs)

subsection \<open>start while started\<close>

text \<open>
  A second \<open>start\<close> while the timeline reports \<open>started\<close> keeps the earlier
  \<open>started\<close> event: after \<open>start\<close> at 0 and \<open>start\<close> at 1 the timeline holds
  two \<open>started\<close> events, at 0 and at 1.
\<close>

theorem start_twice_counterexample:
  "getValueAtTime (p_state (source (start (Some (TNumber 0)) None None exampleWorld))) 1 = Started
   \<and> map time (events (p_state (source
         (start (Some (TNumber 1)) None None (start (Some (TNumber 0)) None None exampleWorld)))))
       = [0, 1]
   \<and> map state (events (p_state (source
         (start (Some (TNumber 1)) None None (start (Some (TNumber 0)) None None exampleWorld)))))
       = [Started, Started]
   \<and> calls (source
         (start (Some (TNumber 1)) None None (start (Some (TNumber 0)) None None exampleWorld)))
       = [Call_start 0 None None, Call_restart 1 None None]"
  by (simp add: example_defs timeline_defs source_defs Let_def)

text \<open>
  C2 (amended). When the timeline reports \<open>started\<close> at the effective time \<open>T\<close>,
  \<open>start\<close> cancels every event at or after \<open>T\<close>, inserts a \<open>started\<close> event at
  \<open>T\<close> (the oldest events beyond \<open>memory\<close> are evicted), and calls \<open>restart\<close>,
  not \<open>_start\<close>; nothing is scheduled on the transport. Afterwards the timeline holds
  exactly one event at or after \<open>T\<close>, the new \<open>started\<close> event; \<open>started\<close> events
  before \<open>T\<close> stay.
\<close>

theorem start_while_started:
  assumes started: "getValueAtTime (p_state (source w)) T = Started"
    and T: "T = computedTime (ctx w) (p_synced (source w)) tm"
    and mem: "1 \<le> memory (p_state (source w))"
  shows "events (p_state (source (start tm offs dur w)))
           = drop (Suc (length (filter (\<lambda>e. time e < T) (events (p_state (source w)))))
                     - memory (p_state (source w)))
               (filter (\<lambda>e. time e < T) (events (p_state (source w))))
             @ [newEvent Started T]
         \<and> filter (\<lambda>e. T \<le> time e) (events (p_state (source (start tm offs dur w))))
           = [newEvent Started T]
         \<and> calls (source (start tm offs dur w)) = calls (source w) @ [Call_restart T offs dur]
         \<and> ctx (start tm offs dur w) = ctx w
         \<and> p_scheduled (source (start tm offs dur w)) = p_scheduled (source w)"
proof -
  let ?B = "filter (\<lambda>e. time e < T) (events (p_state (source w)))"
  let ?D = "drop (Suc (length ?B) - memory (p_state (source w))) ?B"
  have w': "start tm offs dur w =
           w\<lparr>source := (source w)
               \<lparr>p_state := setStateAtTime Started T (cancel T (p_state (source w))),
                calls := calls (source w) @ [Call_restart T offs dur]\<rparr>\<rparr>"
    using start_restart [of w tm offs dur] started T by simp
  have ev: "events (setStateAtTime Started T (cancel T (p_state (source w))))
              = ?D @ [newEvent Started T]"
    using mem by (rule setStateAtTime_after_cancel)
  have "\<forall>e \<in> set ?B. \<not> T \<le> time e"
    by auto
  then have "\<forall>e \<in> set ?D. \<not> T \<le> time e"
    by (rule Ball_drop)
  then have "filter (\<lambda>e. T \<le> time e) ?D = []"
    by (rule filter_False)
  then have one: "filter (\<lambda>e. T \<le> time e) (?D @ [newEvent Started T]) = [newEvent Started T]"
    by (simp add: newEvent_def)
  show ?thesis
    using ev one by (simp add: w')
qed

theorem start_while_started_witness:
  "getValueAtTime (p_state (source
       (run [Start (Some (TNumber 0)) None None, Stop (Some (TNumber 5))] exampleWorld))) 1
     = Started
   \<and> computedTime (ctx (run [Start (Some (TNumber 0)) None None, Stop (Some (TNumber 5))]
         exampleWorld)) False (Some (TNumber 1)) = 1
   \<and> 1 \<le> memory (p_state (source
         (run [Start (Some (TNumber 0)) None None, Stop (Some (TNumber 5))] exampleWorld)))
   \<and> events (p_state (source
         (run [Start (Some (TNumber 0)) None None, Stop (Some (TNumber 5))] exampleWorld)))
       = [newEvent Started 0, newEvent Stopped 5]
   \<and> events (p_state (source (start (Some (TNumber 1)) None None
         (run [Start (Some (TNumber 0)) None None, Stop (Some (TNumber 5))] exampleWorld))))
       = [newEvent Started 0, newEvent Started 1]
   \<and> calls (source (start (Some (TNumber 1)) None None
         (run [Start (Some (TNumber 0)) None None, Stop (Some (TNumber 5))] exampleWorld)))
       = [Call_start 0 None None, Call_stop 5, Call_restart 1 None None]"
  using start_while_started
      [of "run [Start (Some (TNumber 0)) None None, Stop (Some (TNumber 5))] exampleWorld" 1
        "Some (TNumber 1)" None None]
  by (simp add: example_defs timeline_defs source_defs Let_def)

subsection \<open>The effective time of a call\<close>

text \<open>
  C3. For a start or stop call with an explicit time \<open>t\<close> the effective time is
  \<open>max (toSeconds t) currentTime\<close>: it is never before the rendering clock, and a
  request in the past is moved to the clock's time, not rejected. With the time omitted
  on a synced source it is the transport's seconds. The effective time is the time
  handed on: to \<open>_stop\<close>, \<open>_start\<close> or \<open>restart\<close>, or to
  \<open>transport.schedule\<close> on a synced source.
\<close>

theorem effective_time:
  "computedTime (ctx w) (p_synced (source w)) (Some t)
      = max (toSeconds (ctx w) (Some t)) (currentTime (ctx w))
   \<and> currentTime (ctx w) \<le> computedTime (ctx w) (p_synced (source w)) (Some t)
   \<and> (toSeconds (ctx w) (Some t) < currentTime (ctx w) \<longrightarrow>
        computedTime (ctx w) (p_synced (source w)) (Some t) = currentTime (ctx w))
   \<and> (p_synced (source w) \<longrightarrow>
        computedTime (ctx w) (p_synced (source w)) None = seconds (transport (ctx w)))
   \<and> (\<not> p_synced (source w) \<longrightarrow>
        calls (source (stop tm w))
          = calls (source w) @ [Call_stop (computedTime (ctx w) (p_synced (source w)) tm)])
   \<and> (p_synced (source w) \<longrightarrow>
        timeline (transport (ctx (stop tm w)))
          = timeline (transport (ctx w))
            @ [(nextId (transport (ctx w)), computedTime (ctx w) (p_synced (source w)) tm,
                ident (source w), DeferStop)])
   \<and> (getValueAtTime (p_state (source w)) (computedTime (ctx w) (p_synced (source w)) tm) = Started \<longrightarrow>
        calls (source (start tm offs dur w))
          = calls (source w)
            @ [Call_restart (computedTime (ctx w) (p_synced (source w)) tm) offs dur])
   \<and> (getValueAtTime (p_state (source w)) (computedTime (ctx w) (p_synced (source w)) tm) \<noteq> Started
        \<and> \<not> p_synced (source w) \<longrightarrow>
        calls (source (start tm offs dur w))
          = calls (source w)
            @ [Call_start (computedTime (ctx w) (p_synced (source w)) tm) offs dur])
   \<and> (getValueAtTime (p_state (source w)) (computedTime (ctx w) (p_synced (source w)) tm) \<noteq> Started
        \<and> p_synced (source w) \<longrightarrow>
        timeline (transport (ctx (start tm offs dur w)))
          = timeline (transport (ctx w))
            @ [(nextId (transport (ctx w)), computedTime (ctx w) (p_synced (source w)) tm,
                ident (source w), DeferStart offs dur)])"
proof -
  let ?T = "computedTime (ctx w) (p_synced (source w))"
  have a: "?T (Some t) = max (toSeconds (ctx w) (Some t)) (currentTime (ctx w))"
    by (simp add: computedTime_def)
  have a2: "currentTime (ctx w) \<le> ?T (Some t)"
    by (simp add: computedTime_def)
  have a3: "toSeconds (ctx w) (Some t) < currentTime (ctx w) \<longrightarrow> ?T (Some t) = currentTime (ctx w)"
    by (simp add: computedTime_def)
  have b: "p_synced (source w) \<longrightarrow> ?T None = seconds (transport (ctx w))"
    by (simp add: computedTime_def)
  have c: "\<not> p_synced (source w) \<longrightarrow>
        calls (source (stop tm w)) = calls (source w) @ [Call_stop (?T tm)]"
    by (simp add: stop_unsynced)
  have d: "p_synced (source w) \<longrightarrow>
        timeline (transport (ctx (stop tm w)))
          = timeline (transport (ctx w))
            @ [(nextId (transport (ctx w)), ?T tm, ident (source w), DeferStop)]"
    by (simp add: stop_synced schedule_def)
  have e: "getValueAtTime (p_state (source w)) (?T tm) = Started \<longrightarrow>
        calls (source (start tm offs dur w))
          = calls (source w) @ [Call_restart (?T tm) offs dur]"
    by (simp add: start_restart)
  have f: "getValueAtTime (p_state (source w)) (?T tm) \<noteq> Started \<and> \<not> p_synced (source w) \<longrightarrow>
        calls (source (start tm offs dur w))
          = calls (source w) @ [Call_start (?T tm) offs dur]"
    by (auto simp: start_unsynced)
  have g: "getValueAtTime (p_state (source w)) (?T tm) \<noteq> Started \<and> p_synced (source w) \<longrightarrow>
        timeline (transport (ctx (start tm offs dur w)))
          = timeline (transport (ctx w))
            @ [(nextId (transport (ctx w)), ?T tm, ident (source w), DeferStart offs dur)]"
    by (auto simp: start_synced_ctx schedule_def)
  show ?thesis
    by (intro conjI a a2 a3 b c d e f g)
qed

theorem effective_time_witness:
  "\<not> p_synced (source lateWorld)
   \<and> toSeconds (ctx lateWorld) (Some (TNumber 1)) < currentTime (ctx lateWorld)
   \<and> computedTime (ctx lateWorld) False (Some (TNumber 1)) = 2
   \<and> calls (source (stop (Some (TNumber 1)) lateWorld)) = [Call_stop 2]
   \<and> calls (source (start (Some (TNumber 1)) None None lateWorld)) = [Call_start 2 None None]
   \<and> p_synced (source (sync lateWorld))
   \<and> computedTime (ctx (sync lateWorld)) True None = 0
   \<and> timeline (transport (ctx (stop (Some (TNumber 1)) (sync lateWorld))))
        = [(0, 2, 7, DeferStop)]
   \<and> timeline (transport (ctx (start (Some (TNumber 1)) None None (sync lateWorld))))
        = [(0, 2, 7, DeferStart None None)]
   \<and> getValueAtTime (p_state (source (start (Some (TNumber 1)) None None lateWorld))) 3 = Started
   \<and> calls (source (start (Some (TNumber 3)) None None
                         (start (Some (TNumber 1)) None None lateWorld)))
        = [Call_start 2 None None, Call_restart 3 None None]"
  using effective_time [of lateWorld "TNumber 1" "Some (TNumber 1)" None None]
    effective_time [of "sync lateWorld" "TNumber 1" "Some (TNumber 1)" None None]
    effective_time [of "start (Some (TNumber 1)) None None lateWorld" "TNumber 3"
      "Some (TNumber 3)" None None]
  by (simp add: example_defs timeline_defs source_defs Let_def)

subsection \<open>The sync-start bridge\<close>

text \<open>
  An event whose recorded duration is zero: \<open>start\<close> with the duration \<open>"0"\<close>, a
  non-empty string, records \<open>toSeconds "0" = 0\<close>. The bridge tests the recorded duration
  for truthiness, so it passes no duration, not \<open>0 - (1 / 2 - 0)\<close>.
\<close>

theorem syncedStart_zero_duration_counterexample:
  "get (p_state (source
       (start (Some (TNumber 0)) None (Some (TString ''0'')) (sync exampleWorld)))) (1 / 2)
     = Some \<lparr>time = 0, state = Started, offset = Some 0, duration = Some 0, implicitEnd = None\<rparr>
   \<and> calls (source (syncedStart 5 (1 / 2)
         (start (Some (TNumber 0)) None (Some (TString ''0'')) (sync exampleWorld))))
     = [Call_start 5 (Some (TNumber (1 / 2))) None]
   \<and> calls (source (syncedStart 5 (1 / 2)
         (start (Some (TNumber 0)) None (Some (TString ''0'')) (sync exampleWorld))))
     \<noteq> [Call_start 5 (Some (TNumber (1 / 2))) (Some (TNumber (0 - (1 / 2 - 0))))]"
  by (simp add: example_defs timeline_defs source_defs Let_def)

text \<open>
  C4 (amended). Fired with rendering time \<open>r\<close> and transport offset \<open>o\<close>, the
  sync-start bridge invokes \<open>_start\<close> exactly when \<open>o > 0\<close> and the event \<open>e\<close> at or
  before \<open>o\<close> is a \<open>started\<close> event with \<open>time e \<noteq> o\<close>. The invocation is
  \<open>_start r (offset e + (o - time e)) d\<close>, where \<open>offset e\<close> is read through
  \<open>toSeconds\<close> (an event without a recorded offset gives what \<open>toSeconds\<close> gives for
  an omitted time), and \<open>d = duration e - (o - time e)\<close> when a duration other than zero
  was recorded and absent otherwise. On a synced source the transport's \<open>start\<close> and
  \<open>loopStart\<close> events fire the bridge. In particular, on a new source with the rendering
  clock at zero and the transport not started, after \<open>sync\<close> and \<open>start\<close> at 0 a
  transport start with offset \<open>1 / 2\<close> invokes \<open>_start\<close> with offset \<open>1 / 2\<close>.
\<close>

theorem syncedStart_bridge:
  "syncedStart r offs w =
     (case get (p_state (source w)) offs of
        None \<Rightarrow> w
      | Some e \<Rightarrow>
          if 0 < offs \<and> state e = Started \<and> time e \<noteq> offs
          then w\<lparr>source := (source w)\<lparr>calls := calls (source w) @
                 [Call_start r
                    (Some (TNumber ((case offset e of None \<Rightarrow> secondsOfUndefined (ctx w)
                                     | Some x \<Rightarrow> x) + (offs - time e))))
                    (case duration e of
                       None \<Rightarrow> None
                     | Some d \<Rightarrow> if d = 0 then None
                                else Some (TNumber (d - (offs - time e))))]\<rparr>\<rparr>
          else w)
   \<and> (consistent w \<and> p_synced (source w) \<longrightarrow>
        emit EvStart r offs w = syncedStart r offs w
      \<and> emit EvLoopStart r offs w = syncedStart r offs w)
   \<and> (ownListeners i (transport c) = [] \<and> currentTime c = 0
        \<and> tstate (transport c) \<noteq> TStarted \<longrightarrow>
      calls (source (emit EvStart r' (1 / 2)
           (start (Some (TNumber 0)) None None (sync \<lparr>ctx = c, source = newSource i cb\<rparr>))))
        = [Call_start r' (Some (TNumber (1 / 2))) None])"
proof -
  have fired: "consistent w \<and> p_synced (source w) \<longrightarrow>
        emit EvStart r offs w = syncedStart r offs w
      \<and> emit EvLoopStart r offs w = syncedStart r offs w"
    by (simp add: emit_consistent)
  show ?thesis
    using syncedStart_unfolded [of r offs w] sync_start_then_transport_start [of i c r' cb] fired
    by blast
qed

theorem syncedStart_bridge_witness:
  "get (p_state (source
       (start (Some (TNumber 1)) (Some (TNumber 2)) (Some (TNumber 4)) (sync exampleWorld)))) 3
     = Some \<lparr>time = 1, state = Started, offset = Some 2, duration = Some 4, implicitEnd = None\<rparr>
   \<and> calls (source (syncedStart 9 3
         (start (Some (TNumber 1)) (Some (TNumber 2)) (Some (TNumber 4)) (sync exampleWorld))))
     = [Call_start 9 (Some (TNumber 4)) (Some (TNumber 2))]
   \<and> calls (source (syncedStart 9 1
         (start (Some (TNumber 1)) (Some (TNumber 2)) (Some (TNumber 4)) (sync exampleWorld))))
     = []
   \<and> consistent
        (start (Some (TNumber 1)) (Some (TNumber 2)) (Some (TNumber 4)) (sync exampleWorld))
   \<and> p_synced (source
        (start (Some (TNumber 1)) (Some (TNumber 2)) (Some (TNumber 4)) (sync exampleWorld)))
   \<and> calls (source (emit EvLoopStart 9 3
         (start (Some (TNumber 1)) (Some (TNumber 2)) (Some (TNumber 4)) (sync exampleWorld))))
     = [Call_start 9 (Some (TNumber 4)) (Some (TNumber 2))]
   \<and> ownListeners 7 (transport exampleContext) = []
   \<and> currentTime exampleContext = 0
   \<and> tstate (transport exampleContext) \<noteq> TStarted
   \<and> calls (source (emit EvStart 9 (1 / 2)
         (start (Some (TNumber 0)) None None (sync exampleWorld))))
     = [Call_start 9 (Some (TNumber (1 / 2))) None]"
  using syncedStart_bridge
      [of 9 3 "start (Some (TNumber 1)) (Some (TNumber 2)) (Some (TNumber 4)) (sync exampleWorld)"
        7 exampleContext 9 True]
    syncedStart_bridge
      [of 9 1 "start (Some (TNumber 1)) (Some (TNumber 2)) (Some (TNumber 4)) (sync exampleWorld)"
        7 exampleContext 9 True]
  by (simp add: example_defs timeline_defs source_defs consistent_def ownListeners_def
      bridgeListeners_def Let_def)

subsection \<open>The sync-stop bridge\<close>

text \<open>
  C5. Fired with rendering time \<open>r\<close>, the sync-stop bridge invokes \<open>_stop r\<close>
  exactly when the timeline reports \<open>started\<close> at
  \<open>getSecondsAtTime (max (r - 1 / sampleRate) 0)\<close>; otherwise it does nothing. On a
  synced source the transport's \<open>stop\<close>, \<open>pause\<close> and \<open>loopEnd\<close> events fire it.
\<close>

theorem syncedStop_bridge:
  "(0 < sampleRate (ctx w) \<longrightarrow>
      syncedStop r w =
        (if getValueAtTime (p_state (source w))
              (getSecondsAtTime (transport (ctx w)) (max (r - 1 / sampleRate (ctx w)) 0))
            = Started
         then w\<lparr>source := (source w)\<lparr>calls := calls (source w) @ [Call_stop r]\<rparr>\<rparr>
         else w))
   \<and> (consistent w \<and> p_synced (source w) \<longrightarrow>
        emit EvStop r offs w = syncedStop r w
      \<and> emit EvPause r offs w = syncedStop r w
      \<and> emit EvLoopEnd r offs w = syncedStop r w)"
proof -
  have a: "0 < sampleRate (ctx w) \<longrightarrow>
      syncedStop r w =
        (if getValueAtTime (p_state (source w))
              (getSecondsAtTime (transport (ctx w)) (max (r - 1 / sampleRate (ctx w)) 0))
            = Started
         then w\<lparr>source := (source w)\<lparr>calls := calls (source w) @ [Call_stop r]\<rparr>\<rparr>
         else w)"
    by (simp add: syncedStop_def sampleTime_def u_stop_def invoked_def Let_def)
  have b: "consistent w \<and> p_synced (source w) \<longrightarrow>
        emit EvStop r offs w = syncedStop r w
      \<and> emit EvPause r offs w = syncedStop r w
      \<and> emit EvLoopEnd r offs w = syncedStop r w"
    by (simp add: emit_consistent)
  show ?thesis
    by (intro conjI a b)
qed

theorem syncedStop_bridge_witness:
  "0 < sampleRate (ctx (run [Sync, Start (Some (TNumber 1)) None None] exampleWorld))
   \<and> consistent (run [Sync, Start (Some (TNumber 1)) None None] exampleWorld)
   \<and> p_synced (source (run [Sync, Start (Some (TNumber 1)) None None] exampleWorld))
   \<and> calls (source (syncedStop 2 (run [Sync, Start (Some (TNumber 1)) None None] exampleWorld)))
        = [Call_stop 2]
   \<and> calls (source (syncedStop (1 / 2)
                 (run [Sync, Start (Some (TNumber 1)) None None] exampleWorld))) = []
   \<and> calls (source (emit EvPause 2 0
                 (run [Sync, Start (Some (TNumber 1)) None None] exampleWorld))) = [Call_stop 2]"
  using syncedStop_bridge [of "run [Sync, Start (Some (TNumber 1)) None None] exampleWorld" 2 0]
    syncedStop_bridge [of "run [Sync, Start (Some (TNumber 1)) None None] exampleWorld" "1 / 2" 0]
  by (simp add: example_defs timeline_defs source_defs consistent_def ownListeners_def
      bridgeListeners_def Let_def)

subsection \<open>The state getter\<close>

text \<open>
  C6. The getter \<open>state\<close>: on a synced source it is the timeline's value at the
  transport's seconds while the transport is started and \<open>stopped\<close> otherwise,
  whatever the timeline holds; on an unsynced source it is the timeline's value at the
  rendering clock's current time plus the look-ahead.
\<close>

theorem state_getter:
  "(p_synced (source w) \<and> tstate (transport (ctx w)) = TStarted \<longrightarrow>
      playbackState w = getValueAtTime (p_state (source w)) (seconds (transport (ctx w))))
   \<and> (p_synced (source w) \<and> tstate (transport (ctx w)) \<noteq> TStarted \<longrightarrow>
      playbackState w = Stopped)
   \<and> (\<not> p_synced (source w) \<longrightarrow>
      playbackState w = getValueAtTime (p_state (source w))
                          (currentTime (ctx w) + lookAhead (ctx w)))"
  by (simp add: playbackState_def now_def)

theorem state_getter_witness:
  "playbackState (run [Sync, Start (Some (TNumber 1)) None None, Clock 0 3 TStarted] exampleWorld)
     = Started
   \<and> getValueAtTime (p_state (source
         (run [Sync, Start (Some (TNumber 1)) None None, Clock 0 3 TPaused] exampleWorld))) 3
     = Started
   \<and> playbackState (run [Sync, Start (Some (TNumber 1)) None None, Clock 0 3 TPaused] exampleWorld)
     = Stopped
   \<and> playbackState (run [Start (Some (TNumber 1)) None None] exampleWorld) = Stopped
   \<and> playbackState (run [Start (Some (TNumber 1)) None None, Clock (19 / 20) 0 TStopped]
         exampleWorld) = Started"
  using state_getter
      [of "run [Sync, Start (Some (TNumber 1)) None None, Clock 0 3 TStarted] exampleWorld"]
    state_getter
      [of "run [Sync, Start (Some (TNumber 1)) None None, Clock 0 3 TPaused] exampleWorld"]
    state_getter [of "run [Start (Some (TNumber 1)) None None] exampleWorld"]
    state_getter
      [of "run [Start (Some (TNumber 1)) None None, Clock (19 / 20) 0 TStopped] exampleWorld"]
  by (simp add: example_defs timeline_defs source_defs Let_def)

subsection \<open>unsync after sync\<close>

text \<open>
  C7. On a source that was not synced, with both clocks and every recorded event at or
  after time zero: after \<open>sync\<close> and any sequence of \<open>start\<close> and \<open>stop\<close> calls, the
  five listeners of \<open>sync\<close> are on the transport, and one \<open>unsync\<close> removes exactly
  them, clears every tracked identifier from the transport and nothing else, empties the
  tracked list, leaves the timeline without events, so that it reports \<open>stopped\<close> at
  every time, and clears the synced flag.
\<close>

theorem unsync_after_sync:
  assumes unsynced: "\<not> p_synced (source w)"
    and nonneg: "nonnegative w"
    and acts: "\<forall>a \<in> set acts. isStartStop a"
  shows "set (bridgeListeners (ident (source w)))
           \<subseteq> set (listeners (transport (ctx (run acts (sync w)))))
       \<and> listeners (transport (ctx (unsync (run acts (sync w)))))
           = filter (\<lambda>l. l \<notin> set (bridgeListeners (ident (source w))))
               (listeners (transport (ctx (run acts (sync w)))))
       \<and> (\<forall>l \<in> set (bridgeListeners (ident (source w))).
             l \<notin> set (listeners (transport (ctx (unsync (run acts (sync w)))))))
       \<and> timeline (transport (ctx (unsync (run acts (sync w)))))
           = filter (\<lambda>e. fst e \<notin> set (p_scheduled (source (run acts (sync w)))))
               (timeline (transport (ctx (run acts (sync w)))))
       \<and> (\<forall>k \<in> set (p_scheduled (source (run acts (sync w)))).
             \<forall>e \<in> set (timeline (transport (ctx (unsync (run acts (sync w)))))). fst e \<noteq> k)
       \<and> p_scheduled (source (unsync (run acts (sync w)))) = []
       \<and> events (p_state (source (unsync (run acts (sync w))))) = []
       \<and> (\<forall>t. getValueAtTime (p_state (source (unsync (run acts (sync w))))) t = Stopped)
       \<and> \<not> p_synced (source (unsync (run acts (sync w))))"
proof -
  let ?w0 = "sync w"
  let ?w1 = "run acts ?w0"
  let ?i = "ident (source w)"
  have w0: "?w0 = w\<lparr>ctx := (ctx w)\<lparr>transport := (transport (ctx w))
                    \<lparr>listeners := listeners (transport (ctx w)) @ bridgeListeners ?i\<rparr>\<rparr>,
             source := (source w)\<lparr>p_synced := True, p_syncedStart := SyncedStart,
                         p_syncedStop := SyncedStop\<rparr>\<rparr>"
    using unsynced by (rule sync_unsynced)
  have "nonnegative ?w0"
    using nonneg by (simp add: w0 nonnegative_def)
  then have keeps: "ident (source ?w1) = ?i" "p_synced (source ?w1)"
      "p_syncedStart (source ?w1) = SyncedStart" "p_syncedStop (source ?w1) = SyncedStop"
      "listeners (transport (ctx ?w1)) = listeners (transport (ctx w)) @ bridgeListeners ?i"
      "nonnegative ?w1"
    using run_start_stop_keeps [OF acts, of ?w0] by (simp_all add: w0)
  have u: "unsync ?w1 =
           ?w1\<lparr>ctx := (ctx ?w1)\<lparr>transport := (transport (ctx ?w1))
                    \<lparr>listeners := filter (\<lambda>l. l \<notin> set (bridgeListeners ?i))
                                    (listeners (transport (ctx ?w1))),
                     timeline := filter (\<lambda>e. fst e \<notin> set (p_scheduled (source ?w1)))
                                   (timeline (transport (ctx ?w1)))\<rparr>\<rparr>,
             source := (source ?w1)\<lparr>p_synced := False, p_scheduled := [],
                         p_state := cancel 0 (p_state (source ?w1))\<rparr>\<rparr>"
    using unsync_synced [OF keeps(2) keeps(3) keeps(4)] by (simp only: keeps(1))
  have installed: "set (bridgeListeners ?i) \<subseteq> set (listeners (transport (ctx ?w1)))"
    by (simp add: keeps(5))
  have ls: "listeners (transport (ctx (unsync ?w1)))
           = filter (\<lambda>l. l \<notin> set (bridgeListeners ?i)) (listeners (transport (ctx ?w1)))"
    by (simp add: u)
  have gone: "\<forall>l \<in> set (bridgeListeners ?i). l \<notin> set (listeners (transport (ctx (unsync ?w1))))"
    unfolding ls by simp
  have tl: "timeline (transport (ctx (unsync ?w1)))
           = filter (\<lambda>e. fst e \<notin> set (p_scheduled (source ?w1))) (timeline (transport (ctx ?w1)))"
    by (simp add: u)
  have cleared: "\<forall>k \<in> set (p_scheduled (source ?w1)).
             \<forall>e \<in> set (timeline (transport (ctx (unsync ?w1)))). fst e \<noteq> k"
    unfolding tl by auto
  have tracked: "p_scheduled (source (unsync ?w1)) = []"
    by (simp add: u)
  have "events (cancel 0 (p_state (source ?w1))) = []"
    using keeps(6) by (intro cancel_nonnegative) (simp add: nonnegative_def)
  then have empty: "events (p_state (source (unsync ?w1))) = []"
    by (simp add: u)
  then have stopped: "\<forall>t. getValueAtTime (p_state (source (unsync ?w1))) t = Stopped"
    by (simp add: getValueAtTime_no_events)
  have flag: "\<not> p_synced (source (unsync ?w1))"
    by (simp add: u)
  show ?thesis
    by (intro conjI installed ls gone tl cleared tracked empty stopped flag)
qed

theorem unsync_after_sync_witness:
  "\<not> p_synced (source exampleWorld) \<and> nonnegative exampleWorld
   \<and> isStartStop (Start (Some (TNumber 0)) None None)
   \<and> isStartStop (Stop (Some (TNumber (3 / 10))))
   \<and> listeners (transport (ctx (run [Start (Some (TNumber 0)) None None,
         Stop (Some (TNumber (3 / 10)))] (sync exampleWorld)))) = bridgeListeners 7
   \<and> timeline (transport (ctx (run [Start (Some (TNumber 0)) None None,
         Stop (Some (TNumber (3 / 10)))] (sync exampleWorld))))
       = [(0, 0, 7, DeferStart None None), (1, 3 / 10, 7, DeferStop)]
   \<and> p_scheduled (source (run [Start (Some (TNumber 0)) None None,
         Stop (Some (TNumber (3 / 10)))] (sync exampleWorld))) = [0, 1]
   \<and> map time (events (p_state (source (run [Start (Some (TNumber 0)) None None,
         Stop (Some (TNumber (3 / 10)))] (sync exampleWorld))))) = [0, 3 / 10]
   \<and> listeners (transport (ctx (unsync (run [Start (Some (TNumber 0)) None None,
         Stop (Some (TNumber (3 / 10)))] (sync exampleWorld))))) = []
   \<and> timeline (transport (ctx (unsync (run [Start (Some (TNumber 0)) None None,
         Stop (Some (TNumber (3 / 10)))] (sync exampleWorld))))) = []
   \<and> p_scheduled (source (unsync (run [Start (Some (TNumber 0)) None None,
         Stop (Some (TNumber (3 / 10)))] (sync exampleWorld)))) = []
   \<and> getValueAtTime (p_state (source (unsync (run [Start (Some (TNumber 0)) None None,
         Stop (Some (TNumber (3 / 10)))] (sync exampleWorld))))) (1 / 10) = Stopped
   \<and> \<not> p_synced (source (unsync (run [Start (Some (TNumber 0)) None None,
         Stop (Some (TNumber (3 / 10)))] (sync exampleWorld))))"
  using unsync_after_sync
      [of exampleWorld "[Start (Some (TNumber 0)) None None, Stop (Some (TNumber (3 / 10)))]"]
  by (simp add: example_defs timeline_defs source_defs nonnegative_def bridgeListeners_def Let_def)

subsection \<open>Redundant sync and unsync\<close>

text \<open>
  \<open>unsync\<close> on a source that is not synced still cancels the timeline from time zero:
  an unsynced source started at 1 reports \<open>started\<close> at 2 before the call and
  \<open>stopped\<close> after it.
\<close>

theorem unsync_unsynced_counterexample:
  "\<not> p_synced (source (start (Some (TNumber 1)) None None exampleWorld))
   \<and> events (p_state (source (start (Some (TNumber 1)) None None exampleWorld)))
       = [newEvent Started 1]
   \<and> getValueAtTime (p_state (source (start (Some (TNumber 1)) None None exampleWorld))) 2
       = Started
   \<and> events (p_state (source (unsync (start (Some (TNumber 1)) None None exampleWorld)))) = []
   \<and> getValueAtTime (p_state (source (unsync (start (Some (TNumber 1)) None None exampleWorld)))) 2
       = Stopped"
  by (simp add: example_defs timeline_defs source_defs Let_def)

text \<open>
  C8 (amended). \<open>sync\<close> on a synced source changes nothing, and a second \<open>sync\<close> or a
  second \<open>unsync\<close> in a row changes nothing. \<open>unsync\<close> on a source that is not synced
  leaves the synced flag and the transport's listeners as they are and the tracked list
  empty, but it cancels the timeline from time zero; with no identifier tracked, that is
  its only effect.
\<close>

theorem redundant_sync_unsync:
  "(p_synced (source w) \<longrightarrow> sync w = w)
   \<and> sync (sync w) = sync w
   \<and> unsync (unsync w) = unsync w
   \<and> (\<not> p_synced (source w) \<longrightarrow>
        p_synced (source (unsync w)) = p_synced (source w)
      \<and> listeners (transport (ctx (unsync w))) = listeners (transport (ctx w))
      \<and> p_scheduled (source (unsync w)) = []
      \<and> p_state (source (unsync w)) = cancel 0 (p_state (source w)))
   \<and> (\<not> p_synced (source w) \<and> p_scheduled (source w) = [] \<longrightarrow>
        unsync w = w\<lparr>source := (source w)\<lparr>p_state := cancel 0 (p_state (source w))\<rparr>\<rparr>)"
proof -
  have a: "p_synced (source w) \<longrightarrow> sync w = w"
    by (simp add: sync_synced)
  have b: "sync (sync w) = sync w"
    by (simp add: sync_synced)
  have c: "unsync (unsync w) = unsync w"
    by (rule unsync_twice)
  have keep: "listeners (foldl (\<lambda>tr i. clear i tr) tr ids) = listeners tr" for tr ids
    by (induction ids arbitrary: tr) (simp_all add: clear_def)
  have d: "\<not> p_synced (source w) \<longrightarrow>
        p_synced (source (unsync w)) = p_synced (source w)
      \<and> listeners (transport (ctx (unsync w))) = listeners (transport (ctx w))
      \<and> p_scheduled (source (unsync w)) = []
      \<and> p_state (source (unsync w)) = cancel 0 (p_state (source w))"
    by (simp add: unsync_when_unsynced keep)
  have e: "\<not> p_synced (source w) \<and> p_scheduled (source w) = [] \<longrightarrow>
        unsync w = w\<lparr>source := (source w)\<lparr>p_state := cancel 0 (p_state (source w))\<rparr>\<rparr>"
  proof
    assume h: "\<not> p_synced (source w) \<and> p_scheduled (source w) = []"
    then have "(source w)\<lparr>p_scheduled := []\<rparr> = source w"
      by (cases "source w") simp
    then have "(source w)\<lparr>p_scheduled := [], p_state := cancel 0 (p_state (source w))\<rparr>
                 = (source w)\<lparr>p_state := cancel 0 (p_state (source w))\<rparr>"
      by simp
    then show "unsync w = w\<lparr>source := (source w)\<lparr>p_state := cancel 0 (p_state (source w))\<rparr>\<rparr>"
      using h by (simp add: unsync_when_unsynced)
  qed
  show ?thesis
    by (intro conjI a b c d e)
qed

theorem redundant_sync_unsync_witness:
  "p_synced (source (sync exampleWorld))
   \<and> sync (sync exampleWorld) = sync exampleWorld
   \<and> \<not> p_synced (source (start (Some (TNumber 1)) None None exampleWorld))
   \<and> p_scheduled (source (start (Some (TNumber 1)) None None exampleWorld)) = []
   \<and> unsync (start (Some (TNumber 1)) None None exampleWorld)
       = (start (Some (TNumber 1)) None None exampleWorld)
           \<lparr>source := (source (start (Some (TNumber 1)) None None exampleWorld))
               \<lparr>p_state := \<lparr>events = [], memory = 100\<rparr>\<rparr>\<rparr>
   \<and> unsync (unsync (start (Some (TNumber 1)) None None exampleWorld))
       = unsync (start (Some (TNumber 1)) None None exampleWorld)"
  using redundant_sync_unsync [of "sync exampleWorld"]
    redundant_sync_unsync [of "start (Some (TNumber 1)) None None exampleWorld"]
  by (simp add: example_defs timeline_defs source_defs Let_def)

subsection \<open>Disposal\<close>

text \<open>
  \<open>Source\<close> has no check for disposal: \<open>sync\<close> on a disposed source completes,
  marks it synced and puts the five listeners on the transport again, and a later
  \<open>start\<close> schedules a callback there.
\<close>

theorem sync_after_dispose_counterexample:
  "listeners (transport (ctx (dispose (sync exampleWorld)))) = []
   \<and> \<not> p_synced (source (dispose (sync exampleWorld)))
   \<and> p_synced (source (sync (dispose (sync exampleWorld))))
   \<and> listeners (transport (ctx (sync (dispose (sync exampleWorld)))))
       = [(EvStart, 7, SyncedStart), (EvLoopStart, 7, SyncedStart), (EvStop, 7, SyncedStop),
          (EvPause, 7, SyncedStop), (EvLoopEnd, 7, SyncedStop)]
   \<and> timeline (transport (ctx (start (Some (TNumber 1)) None None
         (sync (dispose (sync exampleWorld))))))
       = [(0, 1, 7, DeferStart None None)]"
  by (simp add: example_defs timeline_defs source_defs Let_def)

text \<open>
  C9 (amended). From a consistent source, after any sequence of calls, transport events
  and clock changes, \<open>dispose\<close> leaves no listener and no callback of this source on
  the transport, an empty tracked list and an empty timeline, and the source unsynced;
  the listeners and callbacks of other sources stay as they were. \<open>Source\<close> does not
  reject a later call: \<open>sync\<close> after \<open>dispose\<close> marks the source synced and installs
  its five listeners again.
\<close>

theorem dispose_clears_registrations:
  assumes "consistent w"
  shows "ownListeners (ident (source w)) (transport (ctx (dispose (run acts w)))) = []
       \<and> ownCallbacks (ident (source w)) (transport (ctx (dispose (run acts w)))) = []
       \<and> p_scheduled (source (dispose (run acts w))) = []
       \<and> \<not> p_synced (source (dispose (run acts w)))
       \<and> events (p_state (source (dispose (run acts w)))) = []
       \<and> otherListeners (ident (source w)) (transport (ctx (dispose (run acts w))))
           = otherListeners (ident (source w)) (transport (ctx (run acts w)))
       \<and> otherCallbacks (ident (source w)) (transport (ctx (dispose (run acts w))))
           = otherCallbacks (ident (source w)) (transport (ctx (run acts w)))
       \<and> p_synced (source (sync (dispose (run acts w))))
       \<and> ownListeners (ident (source w)) (transport (ctx (sync (dispose (run acts w)))))
           = bridgeListeners (ident (source w))"
proof -
  let ?w1 = "run acts w"
  have c1: "consistent ?w1"
    using assms by (rule consistent_run)
  have d: "consistent (dispose ?w1)"
      "ident (source (dispose ?w1)) = ident (source w)"
      "ownListeners (ident (source w)) (transport (ctx (dispose ?w1))) = []"
      "ownCallbacks (ident (source w)) (transport (ctx (dispose ?w1))) = []"
      "p_scheduled (source (dispose ?w1)) = []"
      "\<not> p_synced (source (dispose ?w1))"
      "events (p_state (source (dispose ?w1))) = []"
      "otherListeners (ident (source w)) (transport (ctx (dispose ?w1)))
           = otherListeners (ident (source w)) (transport (ctx ?w1))"
      "otherCallbacks (ident (source w)) (transport (ctx (dispose ?w1)))
           = otherCallbacks (ident (source w)) (transport (ctx ?w1))"
    using dispose_effect [OF c1] by simp_all
  have "consistent (sync (dispose ?w1))"
    using d(1) by (rule consistent_sync)
  moreover have "ident (source (sync (dispose ?w1))) = ident (source w)"
    using d(2) by (simp add: sync_def Let_def)
  ultimately have again: "ownListeners (ident (source w)) (transport (ctx (sync (dispose ?w1))))
           = bridgeListeners (ident (source w))"
    by (simp add: consistent_def)
  show ?thesis
    using d again by simp
qed

theorem dispose_clears_registrations_witness:
  "consistent exampleWorld
   \<and> timeline (transport (ctx (run [Sync, Start (Some (TNumber 0)) None None,
         Stop (Some (TNumber (3 / 10)))] exampleWorld)))
       = [(0, 0, 7, DeferStart None None), (1, 3 / 10, 7, DeferStop)]
   \<and> listeners (transport (ctx (run [Sync, Start (Some (TNumber 0)) None None,
         Stop (Some (TNumber (3 / 10)))] exampleWorld))) = bridgeListeners 7
   \<and> listeners (transport (ctx (dispose (run [Sync, Start (Some (TNumber 0)) None None,
         Stop (Some (TNumber (3 / 10)))] exampleWorld)))) = []
   \<and> timeline (transport (ctx (dispose (run [Sync, Start (Some (TNumber 0)) None None,
         Stop (Some (TNumber (3 / 10)))] exampleWorld)))) = []
   \<and> p_scheduled (source (dispose (run [Sync, Start (Some (TNumber 0)) None None,
         Stop (Some (TNumber (3 / 10)))] exampleWorld))) = []
   \<and> listeners (transport (ctx (sync (dispose (run [Sync, Start (Some (TNumber 0)) None None,
         Stop (Some (TNumber (3 / 10)))] exampleWorld))))) = bridgeListeners 7"
  using dispose_clears_registrations
      [of exampleWorld "[Sync, Start (Some (TNumber 0)) None None, Stop (Some (TNumber (3 / 10)))]"]
  by (simp add: example_defs timeline_defs source_defs consistent_def ownListeners_def
      bridgeListeners_def Let_def)

subsection \<open>Identifiers stay until unsync\<close>

text \<open>
  C10. No call but \<open>unsync\<close> removes a tracked identifier or a callback from the
  transport: over any sequence of calls, transport events and clock changes without
  \<open>unsync\<close>, the tracked list and the transport's callbacks only grow at the end. A
  \<open>stop\<close> on a synced source adds its own callback and keeps every earlier one, and a
  restarting \<open>start\<close> leaves the callbacks as they are, although both cancel the
  timeline's events at or after the effective time.
\<close>

theorem scheduled_kept_until_unsync:
  "(Unsync \<notin> set acts \<longrightarrow>
      (\<exists>tl sch. timeline (transport (ctx (run acts w))) = timeline (transport (ctx w)) @ tl
         \<and> p_scheduled (source (run acts w)) = p_scheduled (source w) @ sch))
   \<and> (p_synced (source w) \<and> 1 \<le> memory (p_state (source w)) \<longrightarrow>
        timeline (transport (ctx (stop tm w)))
          = timeline (transport (ctx w))
            @ [(nextId (transport (ctx w)), computedTime (ctx w) True tm,
                ident (source w), DeferStop)]
      \<and> p_scheduled (source (stop tm w)) = p_scheduled (source w) @ [nextId (transport (ctx w))]
      \<and> filter (\<lambda>e. computedTime (ctx w) True tm \<le> time e)
           (events (p_state (source (stop tm w))))
          = [newEvent Stopped (computedTime (ctx w) True tm)])
   \<and> (getValueAtTime (p_state (source w)) (computedTime (ctx w) (p_synced (source w)) tm)
          = Started
        \<and> 1 \<le> memory (p_state (source w)) \<longrightarrow>
        timeline (transport (ctx (start tm offs dur w))) = timeline (transport (ctx w))
      \<and> p_scheduled (source (start tm offs dur w)) = p_scheduled (source w)
      \<and> filter (\<lambda>e. computedTime (ctx w) (p_synced (source w)) tm \<le> time e)
           (events (p_state (source (start tm offs dur w))))
          = [newEvent Started (computedTime (ctx w) (p_synced (source w)) tm)])"
proof -
  have a: "Unsync \<notin> set acts \<longrightarrow>
      (\<exists>tl sch. timeline (transport (ctx (run acts w))) = timeline (transport (ctx w)) @ tl
         \<and> p_scheduled (source (run acts w)) = p_scheduled (source w) @ sch)"
    using run_appends [of acts w] by blast
  have b: "p_synced (source w) \<and> 1 \<le> memory (p_state (source w)) \<longrightarrow>
        timeline (transport (ctx (stop tm w)))
          = timeline (transport (ctx w))
            @ [(nextId (transport (ctx w)), computedTime (ctx w) True tm,
                ident (source w), DeferStop)]
      \<and> p_scheduled (source (stop tm w)) = p_scheduled (source w) @ [nextId (transport (ctx w))]
      \<and> filter (\<lambda>e. computedTime (ctx w) True tm \<le> time e)
           (events (p_state (source (stop tm w))))
          = [newEvent Stopped (computedTime (ctx w) True tm)]"
    by (auto simp: stop_synced schedule_def single_event_after_cancel)
  have c: "getValueAtTime (p_state (source w)) (computedTime (ctx w) (p_synced (source w)) tm)
          = Started
        \<and> 1 \<le> memory (p_state (source w)) \<longrightarrow>
        timeline (transport (ctx (start tm offs dur w))) = timeline (transport (ctx w))
      \<and> p_scheduled (source (start tm offs dur w)) = p_scheduled (source w)
      \<and> filter (\<lambda>e. computedTime (ctx w) (p_synced (source w)) tm \<le> time e)
           (events (p_state (source (start tm offs dur w))))
          = [newEvent Started (computedTime (ctx w) (p_synced (source w)) tm)]"
    by (auto simp: start_restart single_event_after_cancel)
  show ?thesis
    by (intro conjI a b c)
qed

theorem scheduled_kept_until_unsync_witness:
  "Unsync \<notin> set [Stop (Some (TNumber (1 / 2)))]
   \<and> p_synced (source (run [Sync, Start (Some (TNumber 1)) None None] exampleWorld))
   \<and> 1 \<le> memory (p_state (source (run [Sync, Start (Some (TNumber 1)) None None] exampleWorld)))
   \<and> map time (events (p_state (source
         (run [Sync, Start (Some (TNumber 1)) None None] exampleWorld)))) = [1]
   \<and> timeline (transport (ctx (run [Sync, Start (Some (TNumber 1)) None None] exampleWorld)))
       = [(0, 1, 7, DeferStart None None)]
   \<and> events (p_state (source (stop (Some (TNumber (1 / 2)))
         (run [Sync, Start (Some (TNumber 1)) None None] exampleWorld))))
       = [newEvent Stopped (1 / 2)]
   \<and> timeline (transport (ctx (stop (Some (TNumber (1 / 2)))
         (run [Sync, Start (Some (TNumber 1)) None None] exampleWorld))))
       = [(0, 1, 7, DeferStart None None), (1, 1 / 2, 7, DeferStop)]
   \<and> p_scheduled (source (stop (Some (TNumber (1 / 2)))
         (run [Sync, Start (Some (TNumber 1)) None None] exampleWorld))) = [0, 1]
   \<and> getValueAtTime (p_state (source
         (run [Sync, Start (Some (TNumber 0)) None None, Stop (Some (TNumber 5))] exampleWorld))) 1
       = Started
   \<and> map time (events (p_state (source (start (Some (TNumber 1)) None None
         (run [Sync, Start (Some (TNumber 0)) None None, Stop (Some (TNumber 5))] exampleWorld)))))
       = [0, 1]
   \<and> timeline (transport (ctx (start (Some (TNumber 1)) None None
         (run [Sync, Start (Some (TNumber 0)) None None, Stop (Some (TNumber 5))] exampleWorld))))
       = [(0, 0, 7, DeferStart None None), (1, 5, 7, DeferStop)]"
  using scheduled_kept_until_unsync
      [of "[Stop (Some (TNumber (1 / 2)))]"
        "run [Sync, Start (Some (TNumber 1)) None None] exampleWorld"
        "Some (TNumber (1 / 2))" None None]
    scheduled_kept_until_unsync
      [of "[]" "run [Sync, Start (Some (TNumber 0)) None None, Stop (Some (TNumber 5))] exampleWorld"
        "Some (TNumber 1)" None None]
  by (simp add: example_defs timeline_defs source_defs Let_def)

end
